theory Spec2Isabelle
  imports Main
begin

section \<open>PowerGrid: viewport windowing and incremental patching\<close>

text \<open>
  A shallow embedding of the row-windowing core of the PowerGrid class and of
  SummarizingDataSource. Row indices and pixel offsets are JavaScript numbers holding
  integers and are modelled as \<open>int\<close>.

  The rendering surface is modelled by the ordered list of row nodes of each row group.
  Its elements are DOM elements: \<open>init\<close> and \<open>createRowGroup\<close> make them with
  \<open>createElement\<close>, attach them with \<open>appendChild\<close>, read their \<open>classList\<close> and keep
  the parts of a row group in the array \<open>all\<close>; \<open>querySelectorAll\<close> answers with a
  NodeList. The source also
  makes calls in the style of jQuery on these objects: \<open>find\<close> on an element, \<open>each\<close> on
  an array, \<open>slice\<close> on a NodeList, and the selectors \<open>:eq\<close> and \<open>:gt\<close>. None of them
  exists on a DOM. Calling a method the receiver does not have is a TypeError, and
  \<open>querySelectorAll\<close> rejects a selector that is not CSS with a SyntaxError. In the
  model each of these calls raises its error, at the place where the source makes it.

  Errors are results: the \<open>throw\<close> statements of the source, and on the modelled paths
  the runtime errors of reading a property of \<open>undefined\<close> or calling it (TypeError), of
  \<open>new Array\<close> with a negative length (RangeError) and of an invalid selector
  (SyntaxError). The data source is synchronous:
  \<open>getData\<close> answers with an array. Work that the source only schedules for a later
  turn of the event loop (the render batch behind \<open>queueUpdateViewport\<close>,
  \<open>queueAdjustHeights\<close> and \<open>queueAfterRender\<close>, and the second pass of
  \<open>updateViewportImmediate\<close>) is a later call of the operation concerned, not part of
  the operation that schedules it.
\<close>

subsection \<open>JavaScript array primitives\<close>

definition js_rem :: "int \<Rightarrow> int \<Rightarrow> int" where
  \<comment> \<open>The \<open>%\<close> operator: the result takes the sign of the dividend.\<close>
  "js_rem a b = sgn a * (\<bar>a\<bar> mod \<bar>b\<bar>)"

definition js_index :: "nat \<Rightarrow> int \<Rightarrow> nat" where
  \<comment> \<open>Relative index of \<open>slice\<close> and \<open>splice\<close>: negative counts from the end, then clamped.\<close>
  "js_index len i = (if i < 0 then nat (max (int len + i) 0) else min (nat i) len)"

definition js_slice :: "'a list \<Rightarrow> int \<Rightarrow> int \<Rightarrow> 'a list" where
  \<comment> \<open>\<open>xs.slice(a, b)\<close>\<close>
  "js_slice xs a b =
     (let ka = js_index (length xs) a; kb = js_index (length xs) b
      in take (kb - ka) (drop ka xs))"

definition js_slice_from :: "'a list \<Rightarrow> int \<Rightarrow> 'a list" where
  \<comment> \<open>\<open>xs.slice(a)\<close>\<close>
  "js_slice_from xs a = drop (js_index (length xs) a) xs"

definition js_splice :: "'a list \<Rightarrow> int \<Rightarrow> int \<Rightarrow> 'a list" where
  \<comment> \<open>\<open>xs.splice(a, n)\<close>: the array that is left.\<close>
  "js_splice xs a n =
     (let ka = js_index (length xs) a; k = min (nat (max n 0)) (length xs - ka)
      in take ka xs @ drop (ka + k) xs)"

definition js_put :: "'a \<Rightarrow> 'a list \<Rightarrow> nat \<Rightarrow> 'a \<Rightarrow> 'a list" where
  \<comment> \<open>\<open>xs[i] = v\<close>: a write past the end extends the array with holes.\<close>
  "js_put hole xs i v =
     (if i < length xs then xs[i := v] else xs @ replicate (i - length xs) hole @ [v])"

subsection \<open>Options, ranges, records\<close>

record options =
  virtualScrollingExcess :: int
  frozenRowsTop :: int
  frozenRowsBottom :: int
  rowHeight_option :: int

definition defaultOptions :: options where
  "defaultOptions = \<lparr> virtualScrollingExcess = 10, frozenRowsTop = 0,
                      frozenRowsBottom = 0, rowHeight_option = 31 \<rparr>"

text \<open>A range \<open>{begin, end}\<close> of row indices, half-open.\<close>

record range =
  rbegin :: int
  rend :: int

datatype 'i rec = Rec (record_id: 'i)

datatype error = IndexMismatch | TypeError | RangeError | SyntaxError

definition and_then :: "error + 'a \<Rightarrow> ('a \<Rightarrow> error + 'b) \<Rightarrow> error + 'b" where
  "and_then m f = (case m of Inl e \<Rightarrow> Inl e | Inr x \<Rightarrow> f x)"

subsection \<open>Viewport tracker\<close>

definition rowHeight2 :: "options \<Rightarrow> int \<Rightarrow> int \<Rightarrow> int" where
  \<comment> \<open>\<open>rowHeight(start, end)\<close>\<close>
  "rowHeight2 opts start end' = (end' - start) * rowHeight_option opts"

text \<open>
  The scan of \<open>rowsInView\<close>: \<open>h\<close> is \<open>rowHeight(x)\<close>, \<open>l\<close> the loop bound, \<open>ct\<close> the
  accumulated height and \<open>b\<close> the variable \<open>begin\<close> (\<open>-1\<close> until found). The result is
  \<open>begin\<close> and the value of \<open>x\<close> when the loop is left.
\<close>

function rowsInView_loop ::
  "int \<Rightarrow> int \<Rightarrow> int \<Rightarrow> int \<Rightarrow> int \<Rightarrow> int \<Rightarrow> int \<Rightarrow> int \<times> int" where
  "rowsInView_loop h top' bottom l x ct b =
     (if x < l then
        (let ct' = ct + h in
         if ct' \<ge> top' \<and> b = -1 then rowsInView_loop h top' bottom l (x + 1) ct' x
         else if ct' > bottom then (b, x)
         else rowsInView_loop h top' bottom l (x + 1) ct' b)
      else (b, x))"
  by pat_completeness auto
termination
  by (relation "measure (\<lambda>(h, top', bottom, l, x, ct, b). nat (l - x))") auto

declare rowsInView_loop.simps [simp del]

definition rowsInView :: "options \<Rightarrow> int \<Rightarrow> int \<Rightarrow> int \<Rightarrow> int \<Rightarrow> int \<Rightarrow> range" where
  \<comment> \<open>\<open>rowsInView(top, bottom, start, end)\<close>; \<open>rc\<close> is \<open>getRecordCount()\<close>, used when
      \<open>end\<close> is falsy (\<open>end || this.getRecordCount()\<close>).\<close>
  "rowsInView opts rc top' bottom start end' =
     (case rowsInView_loop (rowHeight_option opts) top' bottom
             (if end' = 0 then rc else end') start 0 (-1) of
        (b, x) \<Rightarrow>
          if b > -1
          then \<lparr> rbegin = b - (js_rem b 2 - js_rem (frozenRowsTop opts) 2), rend = x \<rparr>
          else \<lparr> rbegin = 0, rend = 0 \<rparr>)"

definition viewRange_of :: "options \<Rightarrow> int \<Rightarrow> int \<Rightarrow> int \<Rightarrow> range" where
  \<comment> \<open>\<open>viewRange()\<close> as a function of the options, the record count, and the scroll
      offset and height of the scroll area read from the surface.\<close>
  "viewRange_of opts rc top' height =
     (let start = frozenRowsTop opts;
          end' = rc - frozenRowsBottom opts;
          range = rowsInView opts rc top' (top' + height) start end';
          begin = max start (rbegin range - virtualScrollingExcess opts)
      in \<lparr> rbegin = begin - js_rem begin 2,
           rend = min end' (rend range + virtualScrollingExcess opts) \<rparr>)"

subsection \<open>SummarizingDataSource\<close>










subsection \<open>Grid state\<close>

text \<open>
  A working-set slot is either never written (\<open>undefined\<close>) or a wrapper object
  \<open>{record}\<close> whose record may still be missing.
\<close>

datatype 'i slot = Hole | Entry "'i rec option"

text \<open>
  A row node: its \<open>data-row-idx\<close> attribute, its \<open>data-row-id\<close> attribute (absent until
  the row is populated) and whether its cells were rendered. One node stands for the
  parts of the row (fixed left, scrolling, fixed right), which the source creates, tags,
  inserts and removes together, part by part with the same positions.
\<close>

record 'i row =
  data_row_idx :: int
  data_row_id :: "'i option"
  cells :: bool

datatype rowgroup = HeaderGroup | ScrollingGroup | FooterGroup

text \<open>
  The grid after its first \<open>renderData\<close>: the record count and the viewport are known,
  so \<open>getRecordCount()\<close> returns \<open>recordCount\<close> and its \<open>throw\<close> for an unknown count
  cannot be reached from these states.
  \<open>dataSource\<close> is the data source's synchronous \<open>getData(start, end)\<close>.
  \<open>scrollTop\<close> and \<open>scrollAreaHeight\<close> are what \<open>getScrollPosition\<close> and
  \<open>getScrollAreaSize\<close> read from the surface. \<open>subscriptionQueues\<close> holds the generation
  of every SubscriptionQueue object created so far, \<open>dataSubscriptions\<close> the current one.
  \<open>createdRows\<close> and \<open>removedRows\<close> record the surface's node churn: the index of every
  row node created (\<open>cloneNode\<close>) and every node taken out of the document
  (\<open>removeChild\<close>, \<open>empty\<close>), in order.
\<close>

record 'i grid =
  options :: options
  dataSource :: "int \<Rightarrow> int \<Rightarrow> 'i rec list"
  recordCount :: int
  workingSet :: "'i slot list"
  viewport :: range
  headergroup :: "'i row list"
  scrollinggroup :: "'i row list"
  footergroup :: "'i row list"
  scrollTop :: int
  scrollAreaHeight :: int
  subscriptionQueues :: "nat list"
  dataSubscriptions :: "nat option"
  createdRows :: "int list"
  removedRows :: "'i row list"

definition group_rows :: "rowgroup \<Rightarrow> 'i grid \<Rightarrow> 'i row list" where
  "group_rows g s =
     (case g of HeaderGroup \<Rightarrow> headergroup s
              | ScrollingGroup \<Rightarrow> scrollinggroup s
              | FooterGroup \<Rightarrow> footergroup s)"

definition set_group_rows :: "rowgroup \<Rightarrow> 'i row list \<Rightarrow> 'i grid \<Rightarrow> 'i grid" where
  "set_group_rows g rows s =
     (case g of HeaderGroup \<Rightarrow> s\<lparr> headergroup := rows \<rparr>
              | ScrollingGroup \<Rightarrow> s\<lparr> scrollinggroup := rows \<rparr>
              | FooterGroup \<Rightarrow> s\<lparr> footergroup := rows \<rparr>)"

definition nth_opt :: "'a list \<Rightarrow> int \<Rightarrow> 'a option" where
  \<comment> \<open>\<open>xs[i]\<close> read: \<open>undefined\<close> outside the array.\<close>
  "nth_opt xs i = (if 0 \<le> i \<and> nat i < length xs then Some (xs ! nat i) else None)"

definition ws_at :: "'i slot list \<Rightarrow> int \<Rightarrow> 'i slot" where
  \<comment> \<open>\<open>workingSet[i]\<close>\<close>
  "ws_at ws i = (case nth_opt ws i of None \<Rightarrow> Hole | Some e \<Rightarrow> e)"

subsection \<open>Consistency self-check\<close>

text \<open>
  \<open>verify\<close> walks the rows of the scrolling group. Its result is the \<open>hasError\<close> flag;
  reading \<open>.record\<close> of a working-set slot that was never written is a TypeError.
\<close>

fun verify_rows :: "'i slot list \<Rightarrow> int \<Rightarrow> 'i row list \<Rightarrow> error + bool" where
  "verify_rows ws i [] = Inr False"
| "verify_rows ws i (row # rows) =
     (case ws_at ws i of
        Hole \<Rightarrow> Inl TypeError
      | Entry record \<Rightarrow>
          and_then (verify_rows ws (i + 1) rows) (\<lambda>rest.
            Inr (data_row_idx row \<noteq> i
                 \<or> (case (record, data_row_id row) of
                       (Some r, Some a) \<Rightarrow> a \<noteq> record_id r
                     | _ \<Rightarrow> False)
                 \<or> rest)))"

definition verify :: "'i grid \<Rightarrow> error + bool" where
  "verify s =
     (if int (length (scrollinggroup s)) \<noteq> rend (viewport s) - rbegin (viewport s)
      then Inr True
      else verify_rows (workingSet s) (rbegin (viewport s)) (scrollinggroup s))"

definition debug_verify :: "'i grid \<Rightarrow> error + 'i grid" where
  \<comment> \<open>\<open>if (debug) this.verify()\<close> with \<open>debug = true\<close>: findings are logged only.\<close>
  "debug_verify s = and_then (verify s) (\<lambda>hasError. Inr s)"

subsection \<open>Data subscription queue\<close>

definition cancel :: "nat \<Rightarrow> nat list \<Rightarrow> nat list" where
  \<comment> \<open>Modelled from the spec: \<open>utils.SubscriptionQueue\<close> lives in \<open>utils.js\<close>, which is
      not part of the sources at hand. The queue holds a generation counter, incremented
      by \<open>cancel()\<close>.\<close>
  "cancel q qs = (if q < length qs then qs[q := Suc (qs ! q)] else qs)"

record ('a, 'i) wrapped =
  wrapped_queue :: nat
  wrapped_generation :: nat
  wrapped_callback :: "'a \<Rightarrow> 'i grid \<Rightarrow> error + 'i grid"

definition queue ::
  "('a \<Rightarrow> 'i grid \<Rightarrow> error + 'i grid) \<Rightarrow> 'i grid \<Rightarrow> error + ('a, 'i) wrapped" where
  \<comment> \<open>Modelled from the spec: \<open>this.dataSubscriptions.queue(callback)\<close> wraps the callback
      and captures the current generation of the current queue. Before the first
      \<open>resetDataSubscriptions\<close> there is no queue object to call.\<close>
  "queue callback s =
     (case dataSubscriptions s of
        None \<Rightarrow> Inl TypeError
      | Some q \<Rightarrow>
          Inr \<lparr> wrapped_queue = q, wrapped_generation = subscriptionQueues s ! q,
                wrapped_callback = callback \<rparr>)"

definition is_current :: "('a, 'i) wrapped \<Rightarrow> 'i grid \<Rightarrow> bool" where
  "is_current w s =
     (wrapped_queue w < length (subscriptionQueues s)
      \<and> subscriptionQueues s ! wrapped_queue w = wrapped_generation w)"

definition invoke :: "('a, 'i) wrapped \<Rightarrow> 'a \<Rightarrow> 'i grid \<Rightarrow> error + 'i grid" where
  \<comment> \<open>Modelled from the spec: on invocation the wrapped callback runs only if the
      generation is still current; otherwise the result is dropped.\<close>
  "invoke w x s = (if is_current w s then wrapped_callback w x s else Inr s)"

definition resetDataSubscriptions :: "'i grid \<Rightarrow> 'i grid" where
  "resetDataSubscriptions s =
     (let qs = (case dataSubscriptions s of
                  None \<Rightarrow> subscriptionQueues s
                | Some q \<Rightarrow> cancel q (subscriptionQueues s))
      in s\<lparr> subscriptionQueues := qs @ [0], dataSubscriptions := Some (length qs) \<rparr>)"

subsection \<open>Fetching data and rendering rows\<close>

definition fill_entries :: "'i slot list \<Rightarrow> int \<Rightarrow> int \<Rightarrow> 'i rec list \<Rightarrow> 'i slot list" where
  \<comment> \<open>The loop of \<open>getData\<close> that stores a fresh wrapper at every index of
      \<open>[start, end)\<close>, followed by \<open>processData\<close>, which sets the \<open>record\<close> of the
      wrappers the result reaches. A negative index names no array element.\<close>
  "fill_entries ws start end' data =
     fold (\<lambda>x w. js_put Hole w x (Entry (nth_opt data (int x - start))))
          [nat start..<nat end'] ws"

definition getData :: "int \<Rightarrow> int \<Rightarrow> 'i grid \<Rightarrow> error + ('i rec list \<times> 'i grid)" where
  \<comment> \<open>\<open>getData(start, end)\<close> of the grid, for a data source that answers with an array.
      \<open>new Array(n)\<close> with negative \<open>n\<close> is a RangeError; \<open>processData\<close> writes to
      \<open>workingDataSubset[x].record\<close> for every \<open>x\<close> below the result's length, a TypeError
      where no wrapper was stored.\<close>
  "getData start end' s =
     (let data = dataSource s start end'
      in if (if end' = 0 then recordCount s else end') - start < 0 then Inl RangeError
         else if int (length data) > max 0 (end' - start) then Inl TypeError
         else Inr (data, s\<lparr> workingSet := fill_entries (workingSet s) start end' data \<rparr>))"

definition new_shell :: "int \<Rightarrow> 'i row" where
  "new_shell x = \<lparr> data_row_idx = x, data_row_id = None, cells = False \<rparr>"

definition populate_row :: "'i rec list \<Rightarrow> int \<Rightarrow> int \<Rightarrow> int \<Rightarrow> 'i row \<Rightarrow> error + 'i row" where
  \<comment> \<open>One turn of the loop of \<open>populateRows\<close>, for the shell created for index \<open>x\<close>:
      inside \<open>[lo, hi)\<close> the cells are rendered and \<open>data-row-id\<close> is set to \<open>record.id\<close>,
      a TypeError when \<open>dataSubset[x - start]\<close> is \<open>undefined\<close>.\<close>
  "populate_row dataSubset start lo hi row =
     (let x = data_row_idx row
      in if lo \<le> x \<and> x < hi then
           (case nth_opt dataSubset (x - start) of
              None \<Rightarrow> Inl TypeError
            | Some record \<Rightarrow> Inr (row\<lparr> data_row_id := Some (record_id record), cells := True \<rparr>))
         else Inr row)"

fun populateRows :: "'i rec list \<Rightarrow> int \<Rightarrow> int \<Rightarrow> int \<Rightarrow> 'i row list \<Rightarrow> error + 'i row list" where
  "populateRows dataSubset start lo hi [] = Inr []"
| "populateRows dataSubset start lo hi (row # rows) =
     and_then (populate_row dataSubset start lo hi row) (\<lambda>row'.
       and_then (populateRows dataSubset start lo hi rows) (\<lambda>rows'. Inr (row' # rows')))"

definition populate_lo :: "'i grid \<Rightarrow> int \<Rightarrow> int \<Rightarrow> int" where
  \<comment> \<open>The initial \<open>x\<close> of \<open>populateRows\<close>.\<close>
  "populate_lo s start end' =
     (if end' \<le> frozenRowsTop (options s) \<or> start \<ge> recordCount s - frozenRowsBottom (options s)
      then start else max start (rbegin (viewport s)))"

definition populate_hi :: "'i grid \<Rightarrow> int \<Rightarrow> int \<Rightarrow> int" where
  \<comment> \<open>\<open>vpEnd\<close> of \<open>populateRows\<close>.\<close>
  "populate_hi s start end' =
     (if end' \<le> frozenRowsTop (options s) \<or> start \<ge> recordCount s - frozenRowsBottom (options s)
      then end' else min end' (rend (viewport s)))"

definition querySelectorAll_eq :: "int \<Rightarrow> 'i row list \<Rightarrow> error + 'i row list" where
  \<comment> \<open>\<open>part.querySelectorAll(":scope > .pg-row:eq(" + atIndex + ")")\<close>: \<open>:eq\<close> is not a
      CSS selector, and \<open>querySelectorAll\<close> raises a SyntaxError for it.\<close>
  "querySelectorAll_eq atIndex rows = Inl SyntaxError"

definition insert_rows :: "bool \<Rightarrow> 'i row list \<Rightarrow> 'i row list \<Rightarrow> 'i row list" where
  \<comment> \<open>\<open>target[method](fragment)\<close> for \<open>atIndex\<close> undefined: the target is the part of the
      row group and the method is \<open>prepend\<close> or \<open>append\<close>.\<close>
  "insert_rows prepend fragment rows = (if prepend then fragment @ rows else rows @ fragment)"

definition renderRowGroupContents ::
  "int \<Rightarrow> int \<Rightarrow> rowgroup \<Rightarrow> bool \<Rightarrow> int option \<Rightarrow> 'i grid \<Rightarrow> error + 'i grid" where
  \<comment> \<open>With \<open>atIndex\<close> given, the targets are looked up with the selector \<open>:eq\<close> before
      anything else is done. Had the lookup answered, the method \<open>before\<close> or \<open>after\<close>
      would be called on a NodeList, which has neither.\<close>
  "renderRowGroupContents start end' rowgroup prepend atIndex s =
     (let inserting_first = (atIndex = Some (-1) \<and> \<not> prepend);
          atIndex' = (if inserting_first then None else atIndex);
          prepend' = (if inserting_first then True else prepend)
      in case atIndex' of
           Some n \<Rightarrow>
             and_then (querySelectorAll_eq n (group_rows rowgroup s)) (\<lambda>target. Inl TypeError)
         | None \<Rightarrow>
             and_then (getData (if start < 0 then 0 else start) end' s) (\<lambda>(dataSubset, s1).
               if end' - start < 0 then Inl RangeError
               else and_then
                      (populateRows dataSubset start (populate_lo s1 start end')
                         (populate_hi s1 start end') (map new_shell [start..end' - 1]))
                      (\<lambda>rows. Inr (set_group_rows rowgroup
                                      (insert_rows prepend' rows (group_rows rowgroup s1))
                                      (s1\<lparr> createdRows := createdRows s1 @ [start..end' - 1] \<rparr>)))))"

subsection \<open>Removing rows from the surface\<close>

definition destroyRows :: "nat \<Rightarrow> nat \<Rightarrow> 'i grid \<Rightarrow> 'i grid" where
  \<comment> \<open>\<open>destroyRows(rows)\<close> for the rows at positions \<open>[a, b)\<close> of the scrolling group.\<close>
  "destroyRows a b s =
     s\<lparr> scrollinggroup := take a (scrollinggroup s) @ drop (max a b) (scrollinggroup s),
        removedRows := removedRows s @ take (b - a) (drop a (scrollinggroup s)) \<rparr>"

definition empty_scrolling :: "'i grid \<Rightarrow> 'i grid" where
  \<comment> \<open>\<open>allParts.forEach(empty)\<close>\<close>
  "empty_scrolling s =
     s\<lparr> scrollinggroup := [], removedRows := removedRows s @ scrollinggroup s \<rparr>"

definition shift_row :: "int \<Rightarrow> int \<Rightarrow> 'i row \<Rightarrow> 'i row" where
  "shift_row start offset row =
     (if data_row_idx row \<ge> start then row\<lparr> data_row_idx := data_row_idx row + offset \<rparr>
      else row)"

definition container_find_each :: "('i row \<Rightarrow> 'i row) \<Rightarrow> 'i grid \<Rightarrow> error + 'i grid" where
  \<comment> \<open>\<open>this.container.find("> .pg-rowgroup > .pg-container > .pg-row").each(f)\<close>:
      \<open>container\<close> is the element made in \<open>init\<close>, and an element has no method \<open>find\<close>.
      The call raises before \<open>f\<close> is applied to any row.\<close>
  "container_find_each f s = Inl TypeError"

definition incrementRowIndexes :: "int \<Rightarrow> int \<Rightarrow> 'i grid \<Rightarrow> error + 'i grid" where
  \<comment> \<open>\<open>_incrementRowIndexes(start, offset)\<close>; \<open>shift_row\<close> is the function handed to
      \<open>each\<close>.\<close>
  "incrementRowIndexes start offset s = container_find_each (shift_row start offset) s"

subsection \<open>Setting the viewport\<close>

text \<open>
  \<open>ov\<close> stands for \<open>utils.overlap\<close>, which lives in \<open>utils.js\<close> and is not part of the
  sources at hand. The guard of \<open>setViewport\<close> reads \<open>this.previousViewport\<close>, a property
  that is never assigned, so \<open>!this.previousViewport\<close> holds and the body always runs.
  The padding styles set at the end have no part in the model.
\<close>

definition setViewport ::
  "(range \<Rightarrow> range \<Rightarrow> bool) \<Rightarrow> range \<Rightarrow> 'i grid \<Rightarrow> error + 'i grid" where
  "setViewport ov range' s =
     (let start = frozenRowsTop (options s);
          end' = recordCount s - frozenRowsBottom (options s);
          previousViewport = viewport s;
          s0 = s\<lparr> viewport := range' \<rparr>
      in and_then
           (if ov range' previousViewport then
              and_then
                (if rbegin range' < rbegin previousViewport then
                   renderRowGroupContents (max start (rbegin range'))
                     (min (rend range') (rbegin previousViewport)) ScrollingGroup True None s0
                 else if rbegin range' > rbegin previousViewport then
                   Inr (destroyRows 0
                          (js_index (length (scrollinggroup s0))
                             (rbegin range' - rbegin previousViewport)) s0)
                 else Inr s0)
                (\<lambda>s1.
                   if rend range' < rend previousViewport \<and> rend range' > rbegin previousViewport then
                     Inr (destroyRows
                            (js_index (length (scrollinggroup s1)) (rend range' - rbegin range'))
                            (length (scrollinggroup s1)) s1)
                   else if rend range' > rend previousViewport then
                     renderRowGroupContents (max (rend previousViewport) (rbegin range'))
                       (min (rend range') end') ScrollingGroup False None s1
                   else Inr s1)
            else
              (let s1 = empty_scrolling s0;
                   scrollingStart = max start (rbegin range');
                   scrollingEnd = min (rend range') end'
               in if scrollingEnd > scrollingStart then
                    renderRowGroupContents scrollingStart scrollingEnd ScrollingGroup False None s1
                  else Inr s1))
           debug_verify)"

definition rowsInView_now :: "'i grid \<Rightarrow> range" where
  \<comment> \<open>\<open>rowsInView(sPos.top, sPos.top + sArea.height, start, end)\<close> as computed at the
      head of \<open>updateViewportImmediate\<close>.\<close>
  "rowsInView_now s =
     rowsInView (options s) (recordCount s) (scrollTop s) (scrollTop s + scrollAreaHeight s)
       (frozenRowsTop (options s)) (recordCount s - frozenRowsBottom (options s))"

definition rowsInViewWithExcess :: "'i grid \<Rightarrow> range" where
  "rowsInViewWithExcess s =
     \<lparr> rbegin = max (frozenRowsTop (options s))
                  (rbegin (rowsInView_now s) - virtualScrollingExcess (options s)),
       rend = min (recordCount s - frozenRowsBottom (options s))
                (rend (rowsInView_now s) + virtualScrollingExcess (options s)) \<rparr>"

definition target_range :: "(range \<Rightarrow> range \<Rightarrow> bool) \<Rightarrow> bool \<Rightarrow> 'i grid \<Rightarrow> range" where
  \<comment> \<open>The variable \<open>range\<close> of \<open>updateViewportImmediate(renderExcess)\<close>.\<close>
  "target_range ov renderExcess s =
     (if \<not> renderExcess then
        (if ov (viewport s) (rowsInViewWithExcess s) then
           \<lparr> rbegin = min (rbegin (rowsInView_now s)) (rbegin (viewport s)),
             rend = max (rend (rowsInView_now s)) (rend (viewport s)) \<rparr>
         else rowsInView_now s)
      else rowsInViewWithExcess s)"

definition updateViewportImmediate ::
  "(range \<Rightarrow> range \<Rightarrow> bool) \<Rightarrow> bool \<Rightarrow> 'i grid \<Rightarrow> error + 'i grid" where
  \<comment> \<open>The first pass (\<open>renderExcess\<close> false) also schedules the second one, which the
      event loop runs later.\<close>
  "updateViewportImmediate ov renderExcess s = setViewport ov (target_range ov renderExcess s) s"

definition viewRange :: "'i grid \<Rightarrow> range" where
  "viewRange s = viewRange_of (options s) (recordCount s) (scrollTop s) (scrollAreaHeight s)"

subsection \<open>Mutation handlers\<close>

text \<open>
  A handler writes to the grid in several steps, and an error raised on the way leaves
  the earlier writes in place. Its outcome is the grid it leaves behind, together with
  the error when it raised one. \<open>run\<close> takes a step that raises before it writes
  anything.
\<close>

datatype 'i outcome = Returned "'i grid" | Thrown error "'i grid"

definition run :: "('i grid \<Rightarrow> error + 'i grid) \<Rightarrow> 'i grid \<Rightarrow> 'i outcome" where
  "run f s = (case f s of Inl e \<Rightarrow> Thrown e s | Inr s' \<Rightarrow> Returned s')"

definition then_do :: "'i outcome \<Rightarrow> ('i grid \<Rightarrow> 'i outcome) \<Rightarrow> 'i outcome" where
  "then_do r f = (case r of Returned s \<Rightarrow> f s | Thrown e s \<Rightarrow> Thrown e s)"

definition raised :: "'i outcome \<Rightarrow> error option" where
  "raised r = (case r of Returned s \<Rightarrow> None | Thrown e s \<Rightarrow> Some e)"

definition grid_of :: "'i outcome \<Rightarrow> 'i grid" where
  "grid_of r = (case r of Returned s \<Rightarrow> s | Thrown e s \<Rightarrow> s)"

text \<open>
  A selection of consecutive rows of the scrolling group is given by its positions
  \<open>(a, b)\<close>, for the rows at \<open>a, \<dots>, b - 1\<close>.
\<close>

definition children_slice :: "nat \<times> nat \<Rightarrow> error + nat \<times> nat" where
  \<comment> \<open>\<open>children.slice(\<dots>)\<close> in \<open>_removeRows\<close>: \<open>children\<close> is the NodeList answered by
      \<open>querySelectorAll\<close>, and a NodeList has no method \<open>slice\<close>. The arguments do not
      matter; at the second call site the argument is \<open>start - this.viewport\<close>, a number
      minus an object.\<close>
  "children_slice children = Inl TypeError"

definition all_each :: "('i grid \<Rightarrow> error + 'i grid) \<Rightarrow> 'i grid \<Rightarrow> error + 'i grid" where
  \<comment> \<open>\<open>this.scrollinggroup.all.each(f)\<close> in \<open>_addRows\<close>: \<open>all\<close> is the array built by
      \<open>createRowGroup\<close>, and an array has no method \<open>each\<close>.\<close>
  "all_each f s = Inl TypeError"

definition removeRows :: "int \<Rightarrow> int \<Rightarrow> 'i grid \<Rightarrow> 'i outcome" where
  \<comment> \<open>\<open>_removeRows(start, end)\<close>. In the overlapping case \<open>children\<close> starts as all the
      rows of the part; \<open>destroyRows\<close> uses \<open>forEach\<close>, which a NodeList has.\<close>
  "removeRows start end' s =
     (if end' > recordCount s \<or> end' < start then Thrown IndexMismatch s
      else
        let s1 = s\<lparr> recordCount := recordCount s - (end' - start),
                    workingSet := js_splice (workingSet s) start (end' - start) \<rparr>;
            vp = viewport s1
        in if end' \<le> rbegin vp then
             then_do
               (run (incrementRowIndexes start (start - end'))
                  (s1\<lparr> viewport := \<lparr> rbegin = rbegin vp - (end' - start),
                                     rend = rend vp - (end' - start) \<rparr> \<rparr>))
               (run debug_verify)
           else if end' > rbegin vp \<and> start < rend vp then
             then_do
               (run (\<lambda>s. let children = (0, length (scrollinggroup s))
                         in and_then (if end' < rend vp then children_slice children
                                      else Inr children) (\<lambda>children1.
                            and_then (if start > rbegin vp then children_slice children1
                                      else Inr children1) (\<lambda>children2.
                              Inr (destroyRows (fst children2) (snd children2) s)))) s1)
               (\<lambda>s2.
                  then_do
                    (if end' < rend vp then run (incrementRowIndexes start (start - end')) s2
                     else Returned s2)
                    (\<lambda>s3.
                       let vp1 = (if start < rbegin vp then vp\<lparr> rbegin := start \<rparr> else vp);
                           vp2 = (if end' \<ge> rend vp1 then vp1\<lparr> rend := max start (rbegin vp1) \<rparr>
                                  else vp1\<lparr> rend := rend vp1 - (end' - start) \<rparr>)
                       in run debug_verify (s3\<lparr> viewport := vp2 \<rparr>)))
           else run debug_verify s1)"

definition addRows :: "int \<Rightarrow> int \<Rightarrow> 'i grid \<Rightarrow> 'i outcome" where
  \<comment> \<open>\<open>_addRows(start, end)\<close>. The record count is raised before \<open>new Array(end - start)\<close>,
      a RangeError for a negative length. In the function handed to \<open>each\<close> the selector
      is \<open>.pg-row\<close>, or \<open>.pg-row:gt(n)\<close>, which is not CSS. A \<open>renderRowGroupContents\<close>
      that raises is taken to leave the grid as it found it.\<close>
  "addRows start end' s =
     (if start > recordCount s then Thrown IndexMismatch s
      else
        let s0 = s\<lparr> recordCount := recordCount s + (end' - start) \<rparr>
        in if end' - start < 0 then Thrown RangeError s0
           else
             let s1 = s0\<lparr> workingSet := js_slice (workingSet s) 0 start
                                         @ replicate (nat (end' - start)) Hole
                                         @ js_slice_from (workingSet s) start \<rparr>;
                 vp = viewport s1
             in if end' \<ge> rbegin vp \<and> start < rend vp then
                  (let viewRange' = viewRange s1;
                       renderEnd = min (max (rend viewRange') (rend vp)) end';
                       renderStart = max (rbegin vp) start;
                       renderCount = renderEnd - renderStart
                   in then_do
                        (if renderEnd \<noteq> renderStart + end' - start then
                           (let startIndexForDeletion = renderStart - rbegin vp
                            in then_do
                                 (run (all_each (\<lambda>s. if startIndexForDeletion > 0
                                                      then Inl SyntaxError
                                                      else Inr (destroyRows 0
                                                                  (length (scrollinggroup s)) s)))
                                    s1)
                                 (\<lambda>s2. Returned (s2\<lparr> viewport := vp\<lparr> rend := renderStart \<rparr> \<rparr>)))
                         else Returned s1)
                        (\<lambda>s2.
                           then_do (run (incrementRowIndexes start (end' - start)) s2)
                             (\<lambda>s3.
                                let s4 = s3\<lparr> viewport := (viewport s3)
                                             \<lparr> rend := rend (viewport s3) + renderCount \<rparr> \<rparr>
                                in then_do
                                     (run (if renderEnd = rend (viewport s4) then
                                             renderRowGroupContents renderStart renderEnd
                                               ScrollingGroup False None
                                           else
                                             renderRowGroupContents renderStart renderEnd
                                               ScrollingGroup True
                                               (Some (renderStart - rbegin (viewport s4))))
                                        s4)
                                     (run debug_verify))))
                else if end' < rbegin vp then
                  then_do
                    (run (incrementRowIndexes start (end' - start))
                       (s1\<lparr> viewport := \<lparr> rbegin = rbegin vp + (end' - start),
                                          rend = rend vp + (end' - start) \<rparr> \<rparr>))
                    (run debug_verify)
                else run debug_verify s1)"

definition on_rowsremoved :: "int \<Rightarrow> int \<Rightarrow> 'i grid \<Rightarrow> 'i outcome" where
  \<comment> \<open>The listener for the data source's \<open>rowsremoved\<close> event: it calls \<open>_removeRows\<close>
      outside any \<open>try\<close>, then queues updates on the render batch.\<close>
  "on_rowsremoved start end' s = removeRows start end' s"

definition on_rowsadded :: "int \<Rightarrow> int \<Rightarrow> 'i grid \<Rightarrow> 'i outcome" where
  "on_rowsadded start end' s = addRows start end' s"

subsection \<open>Resetting the grid contents\<close>

definition renderData_callback ::
  "(range \<Rightarrow> range \<Rightarrow> bool) \<Rightarrow> int \<Rightarrow> 'i grid \<Rightarrow> error + 'i grid" where
  \<comment> \<open>The function \<open>renderData\<close> queues for the record count. The header and footer
      groups exist when \<open>frozenRowsTop\<close> and \<open>frozenRowsBottom\<close> are not \<open>0\<close>.\<close>
  "renderData_callback ov recordCount' s =
     (let hasHeader = (frozenRowsTop (options s) \<noteq> 0);
          hasFooter = (frozenRowsBottom (options s) \<noteq> 0);
          s1 = s\<lparr> headergroup := (if hasHeader then [] else headergroup s),
                  footergroup := (if hasFooter then [] else footergroup s),
                  removedRows := removedRows s @ (if hasHeader then headergroup s else [])
                                   @ (if hasFooter then footergroup s else []),
                  recordCount := recordCount' \<rparr>;
          s2 = resetDataSubscriptions s1
      in if recordCount' < 0 then Inl RangeError
         else
           and_then (setViewport ov \<lparr> rbegin = 0, rend = 0 \<rparr>
                       (s2\<lparr> workingSet := replicate (nat recordCount') Hole \<rparr>)) (\<lambda>s3.
           and_then (if hasHeader
                     then renderRowGroupContents 0 (frozenRowsTop (options s3)) HeaderGroup
                            False None s3
                     else Inr s3) (\<lambda>s4.
             if hasFooter
             then renderRowGroupContents (recordCount' - frozenRowsBottom (options s4))
                    recordCount' FooterGroup False None s4
             else Inr s4)))"

definition renderData ::
  "(range \<Rightarrow> range \<Rightarrow> bool) \<Rightarrow> 'i grid \<Rightarrow> error + (int, 'i) wrapped" where
  \<comment> \<open>\<open>renderData()\<close> itself only asks for the record count and queues the callback.\<close>
  "renderData ov s = queue (renderData_callback ov) s"

definition overlap :: "range \<Rightarrow> range \<Rightarrow> bool" where
  \<comment> \<open>Modelled from the spec: \<open>utils.overlap\<close> lives in \<open>utils.js\<close>, which is not part of
      the sources at hand. The spec opposes ranges that overlap to ranges that are
      disjoint, ranges being half-open: two ranges overlap when they share a row index.\<close>
  "overlap a b = (max (rbegin a) (rbegin b) < min (rend a) (rend b))"

subsection \<open>The invariant of the scrolling group\<close>

definition id_matches :: "'i slot list \<Rightarrow> 'i row \<Rightarrow> bool" where
  \<comment> \<open>A row whose record is loaded carries that record's id.\<close>
  "id_matches ws row =
     (case ws_at ws (data_row_idx row) of
        Entry (Some r) \<Rightarrow> data_row_id row = Some (record_id r)
      | _ \<Rightarrow> True)"

definition grid_invariant :: "'i grid \<Rightarrow> bool" where
  "grid_invariant s =
     (int (length (scrollinggroup s)) = rend (viewport s) - rbegin (viewport s)
      \<and> map data_row_idx (scrollinggroup s) = [rbegin (viewport s)..rend (viewport s) - 1]
      \<and> list_all (id_matches (workingSet s)) (scrollinggroup s))"

subsection \<open>Sample grids\<close>

definition numbered :: "int \<Rightarrow> int \<Rightarrow> int rec list" where
  \<comment> \<open>A synchronous data source whose record at index \<open>i\<close> has id \<open>i\<close>.\<close>
  "numbered start end' = map Rec [start..end' - 1]"

definition blank_grid :: "options \<Rightarrow> int grid" where
  \<comment> \<open>A grid over \<open>numbered\<close> with nothing rendered, scrolled to the top of a scroll
      area 310 pixels high, after its first \<open>resetDataSubscriptions\<close>.\<close>
  "blank_grid opts =
     \<lparr> options = opts, dataSource = numbered, recordCount = 0, workingSet = [],
       viewport = \<lparr> rbegin = 0, rend = 0 \<rparr>, headergroup = [], scrollinggroup = [],
       footergroup = [], scrollTop = 0, scrollAreaHeight = 310,
       subscriptionQueues = [0], dataSubscriptions = Some 0,
       createdRows = [], removedRows = [] \<rparr>"

definition loaded_row :: "int \<Rightarrow> int row" where
  "loaded_row i = \<lparr> data_row_idx = i, data_row_id = Some i, cells = True \<rparr>"

definition loaded_grid :: "options \<Rightarrow> int \<Rightarrow> int \<Rightarrow> int \<Rightarrow> int grid" where
  \<comment> \<open>The grid over \<open>numbered\<close> with \<open>rc\<close> records and the rows of \<open>[b, e)\<close> rendered
      and loaded.\<close>
  "loaded_grid opts rc b e =
     \<lparr> options = opts, dataSource = numbered, recordCount = rc,
       workingSet = replicate (nat b) Hole @ map (\<lambda>i. Entry (Some (Rec i))) [b..e - 1]
                    @ replicate (nat (rc - e)) Hole,
       viewport = \<lparr> rbegin = b, rend = e \<rparr>, headergroup = [],
       scrollinggroup = map loaded_row [b..e - 1],
       footergroup = [], scrollTop = 0, scrollAreaHeight = 310,
       subscriptionQueues = [1, 0], dataSubscriptions = Some 1,
       createdRows = [b..e - 1], removedRows = [] \<rparr>"




definition rendered_row :: "'i rec list \<Rightarrow> int \<Rightarrow> int \<Rightarrow> int \<Rightarrow> int \<Rightarrow> 'i row" where
  \<comment> \<open>The row node for index \<open>x\<close> once \<open>populateRows\<close> has run over \<open>[lo, hi)\<close>.\<close>
  "rendered_row dataSubset start lo hi x =
     (if lo \<le> x \<and> x < hi
      then \<lparr> data_row_idx = x, data_row_id = Some (record_id (dataSubset ! nat (x - start))),
             cells = True \<rparr>
      else new_shell x)"

definition viewport_loaded :: "'i grid \<Rightarrow> bool" where
  \<comment> \<open>Every index of the viewport has a wrapper in the working set.\<close>
  "viewport_loaded s =
     list_all (\<lambda>i. ws_at (workingSet s) i \<noteq> Hole) [rbegin (viewport s)..rend (viewport s) - 1]"

definition subscriptions_wf :: "'i grid \<Rightarrow> bool" where
  \<comment> \<open>The current subscription queue, if any, is one of the queue objects created.\<close>
  "subscriptions_wf s =
     (case dataSubscriptions s of
        None \<Rightarrow> True
      | Some q \<Rightarrow> q < length (subscriptionQueues s))"

definition scrolled_grid ::
  "options \<Rightarrow> int \<Rightarrow> int \<Rightarrow> int \<Rightarrow> int \<Rightarrow> int \<Rightarrow> int grid" where
  \<comment> \<open>\<open>loaded_grid\<close> scrolled to the pixel offset \<open>top'\<close>, with a scroll area of the given
      height.\<close>
  "scrolled_grid opts rc b e top' height =
     (loaded_grid opts rc b e)\<lparr> scrollTop := top', scrollAreaHeight := height \<rparr>"

definition no_excess :: options where
  "no_excess = defaultOptions\<lparr> virtualScrollingExcess := 0 \<rparr>"

definition churn :: "'i grid \<Rightarrow> range \<times> int list \<times> int list" where
  \<comment> \<open>What a scenario observes: the viewport, the indices of the row nodes created so
      far and the \<open>data-row-idx\<close> of the nodes removed so far.\<close>
  "churn s = (viewport s, createdRows s, map data_row_idx (removedRows s))"

subsection \<open>Rendered segments\<close>

text \<open>
  The preservation proofs need a predicate that speaks of a list of rows and a working set
  on their own, since a handler writes the working set, the rows and the viewport in
  separate steps.
\<close>

definition segment :: "'i slot list \<Rightarrow> 'i row list \<Rightarrow> int \<Rightarrow> int \<Rightarrow> bool" where
  \<comment> \<open>The rows display exactly the records \<open>a\<close> up to \<open>b - 1\<close> of the working set, in
      order, every one of them loaded and shown under its own id.\<close>
  "segment ws rows a b \<longleftrightarrow>
     a \<le> b
     \<and> map data_row_idx rows = [a..b - 1]
     \<and> list_all (id_matches ws) rows
     \<and> list_all (\<lambda>i. ws_at ws i \<noteq> Hole) [a..b - 1]"

definition covers :: "'i grid \<Rightarrow> int \<Rightarrow> int \<Rightarrow> bool" where
  \<comment> \<open>\<open>segment\<close> for the scrolling group of a grid.\<close>
  "covers s a b \<longleftrightarrow>
     a \<le> b
     \<and> map data_row_idx (scrollinggroup s) = [a..b - 1]
     \<and> list_all (id_matches (workingSet s)) (scrollinggroup s)
     \<and> list_all (\<lambda>i. ws_at (workingSet s) i \<noteq> Hole) [a..b - 1]"

section \<open>Properties\<close>

subsection \<open>Auxiliary facts\<close>

lemma and_then_simps [simp]:
  "and_then (Inr x) f = f x"
  "and_then (Inl e) f = Inl e"
  by (simp_all add: and_then_def)

lemma ws_at_int: "ws_at ws (int k) = (if k < length ws then ws ! k else Hole)"
  by (simp add: ws_at_def nth_opt_def)

lemma ws_at_neg: "i < 0 \<Longrightarrow> ws_at ws i = Hole"
  by (simp add: ws_at_def nth_opt_def)

lemma js_splice_int: "js_splice ws (int a) (int n) = take a ws @ drop (a + n) ws"
proof -
  have "js_splice ws (int a) (int n)
        = take (min a (length ws)) ws
          @ drop (min a (length ws) + min n (length ws - min a (length ws))) ws"
    by (simp add: js_splice_def js_index_def Let_def)
  also have "\<dots> = take a ws @ drop (a + n) ws"
    by (cases "a \<le> length ws"; cases "n \<le> length ws - a") (simp_all add: min_def)
  finally show ?thesis .
qed

lemma ws_at_js_splice_nat:
  "ws_at (js_splice ws (int a) (int n)) (int i)
   = (if i < a then ws_at ws (int i) else ws_at ws (int (i + n)))"
  unfolding js_splice_int ws_at_int
  by (auto simp: nth_append min_def add.commute add.left_commute)

lemma ws_at_js_splice:
  assumes a: "0 \<le> a" and n: "0 \<le> n"
  shows "ws_at (js_splice ws a n) i = (if i < a then ws_at ws i else ws_at ws (i + n))"
proof (cases "i < 0")
  case True
  then show ?thesis using a n by (simp add: ws_at_neg)
next
  case False
  then obtain i' where i: "i = int i'" using nonneg_int_cases [of i] by auto
  obtain a' where a': "a = int a'" using a nonneg_int_cases [of a] by auto
  obtain n' where n': "n = int n'" using n nonneg_int_cases [of n] by auto
  show ?thesis
    using ws_at_js_splice_nat [of ws a' n' i'] by (simp add: i a' n')
qed

lemma insert_holes_int:
  "js_slice ws 0 (int a) @ replicate (nat (int n)) Hole @ js_slice_from ws (int a)
   = take a ws @ replicate n Hole @ drop a ws"
  by (simp add: js_slice_def js_slice_from_def js_index_def Let_def min_def)

lemma ws_at_insert_holes_nat:
  "ws_at (take a ws @ replicate n Hole @ drop a ws) (int i)
   = (if i < a then ws_at ws (int i) else if i < a + n then Hole else ws_at ws (int (i - n)))"
  unfolding ws_at_int
  by (auto simp: nth_append min_def)

lemma ws_at_insert_holes:
  assumes a: "0 \<le> a" and n: "0 \<le> n"
  shows "ws_at (js_slice ws 0 a @ replicate (nat n) Hole @ js_slice_from ws a) i
         = (if i < a then ws_at ws i else if i < a + n then Hole else ws_at ws (i - n))"
proof (cases "i < 0")
  case True
  then show ?thesis using a n by (simp add: ws_at_neg)
next
  case False
  then obtain i' where i: "i = int i'" using nonneg_int_cases [of i] by auto
  obtain a' where a': "a = int a'" using a nonneg_int_cases [of a] by auto
  obtain n' where n': "n = int n'" using n nonneg_int_cases [of n] by auto
  have "int i' - int n' = int (i' - n')" if "\<not> i' < a' + n'"
    using that by simp
  then show ?thesis
    using ws_at_insert_holes_nat [of a' ws n' i'] insert_holes_int [of ws a' n']
    by (auto simp add: i a' n')
qed

lemma ws_at_js_put:
  "ws_at (js_put Hole w x v) (int i) = (if i = x then v else ws_at w (int i))"
  unfolding ws_at_int js_put_def
  by (auto simp: nth_append nth_Cons')

lemma ws_at_fold_put:
  "ws_at (fold (\<lambda>x w. js_put Hole w x (g x)) [m..<n] ws) (int i)
   = (if m \<le> i \<and> i < n then g i else ws_at ws (int i))"
proof (induction n)
  case 0
  then show ?case by simp
next
  case (Suc n)
  show ?case
  proof (cases "m \<le> n")
    case True
    then show ?thesis using Suc by (auto simp: ws_at_js_put)
  next
    case False
    then show ?thesis by auto
  qed
qed

lemma ws_at_fill_entries:
  assumes "0 \<le> start"
  shows "ws_at (fill_entries ws start end' data) i
         = (if start \<le> i \<and> i < end' then Entry (nth_opt data (i - start)) else ws_at ws i)"
proof (cases "i < 0")
  case True
  then show ?thesis using assms by (simp add: ws_at_neg)
next
  case False
  then obtain i' where i: "i = int i'" using nonneg_int_cases [of i] by auto
  have "(nat start \<le> i' \<and> i' < nat end') = (start \<le> int i' \<and> int i' < end')"
    using assms by auto
  then show ?thesis
    unfolding fill_entries_def i ws_at_fold_put by simp
qed

lemma verify_rows_total:
  "(\<And>k. k < length rows \<Longrightarrow> ws_at ws (a + int k) \<noteq> Hole)
   \<Longrightarrow> \<exists>b. verify_rows ws a rows = Inr b"
proof (induction rows arbitrary: a)
  case Nil
  then show ?case by auto
next
  case (Cons row rows)
  have "ws_at ws a \<noteq> Hole" using Cons.prems [of 0] by simp
  then obtain r where r: "ws_at ws a = Entry r" by (cases "ws_at ws a") auto
  have "\<And>k. k < length rows \<Longrightarrow> ws_at ws (a + 1 + int k) \<noteq> Hole"
    using Cons.prems [of "Suc _"] by (simp add: add.assoc)
  then obtain b where "verify_rows ws (a + 1) rows = Inr b"
    using Cons.IH [of "a + 1"] by blast
  then show ?case using r by simp
qed

lemma viewport_loaded_iff:
  "viewport_loaded s \<longleftrightarrow>
     (\<forall>i. rbegin (viewport s) \<le> i \<and> i < rend (viewport s)
          \<longrightarrow> ws_at (workingSet s) i \<noteq> Hole)"
  by (auto simp: viewport_loaded_def list_all_iff)

lemma debug_verify_loaded:
  assumes "viewport_loaded s"
  shows "debug_verify s = Inr s"
proof (cases "int (length (scrollinggroup s)) = rend (viewport s) - rbegin (viewport s)")
  case True
  have "\<exists>b. verify_rows (workingSet s) (rbegin (viewport s)) (scrollinggroup s) = Inr b"
  proof (rule verify_rows_total)
    fix k assume "k < length (scrollinggroup s)"
    then have "rbegin (viewport s) + int k < rend (viewport s)" using True by simp
    then show "ws_at (workingSet s) (rbegin (viewport s) + int k) \<noteq> Hole"
      using assms by (simp add: viewport_loaded_iff)
  qed
  then show ?thesis using True by (auto simp: debug_verify_def verify_def)
next
  case False
  then show ?thesis by (simp add: debug_verify_def verify_def)
qed

lemma populateRows_map:
  assumes "\<And>x. x \<in> set xs \<Longrightarrow> lo \<le> x \<Longrightarrow> x < hi
             \<Longrightarrow> 0 \<le> x - start \<and> nat (x - start) < length dataSubset"
  shows "populateRows dataSubset start lo hi (map new_shell xs)
         = Inr (map (rendered_row dataSubset start lo hi) xs)"
  using assms
proof (induction xs)
  case Nil
  then show ?case by simp
next
  case (Cons x xs)
  have "populate_row dataSubset start lo hi (new_shell x)
        = Inr (rendered_row dataSubset start lo hi x)"
    using Cons.prems [of x]
    by (simp add: populate_row_def new_shell_def rendered_row_def nth_opt_def)
  then show ?case using Cons by simp
qed

lemma renderRowGroupContents_ok:
  assumes start: "0 \<le> start" and le: "start \<le> end'" and rc: "0 \<le> recordCount s"
    and exact: "length (dataSource s start end') = nat (end' - start)"
  shows "renderRowGroupContents start end' g prepend None s
         = Inr (set_group_rows g
                  (insert_rows prepend
                     (map (rendered_row (dataSource s start end') start
                             (populate_lo s start end') (populate_hi s start end'))
                        [start..end' - 1])
                     (group_rows g s))
                  (s\<lparr> workingSet := fill_entries (workingSet s) start end' (dataSource s start end'),
                      createdRows := createdRows s @ [start..end' - 1] \<rparr>))"
proof -
  let ?data = "dataSource s start end'"
  let ?s1 = "s\<lparr> workingSet := fill_entries (workingSet s) start end' ?data \<rparr>"
  have gd: "getData start end' s = Inr (?data, ?s1)"
    using start le rc exact by (simp add: getData_def Let_def)
  have lo: "populate_lo ?s1 start end' = populate_lo s start end'"
    and hi: "populate_hi ?s1 start end' = populate_hi s start end'"
    by (simp_all add: populate_lo_def populate_hi_def)
  have lo_ge: "start \<le> populate_lo s start end'"
    by (simp add: populate_lo_def)
  have hi_le: "populate_hi s start end' \<le> end'"
    by (simp add: populate_hi_def)
  have pop: "populateRows ?data start (populate_lo s start end') (populate_hi s start end')
               (map new_shell [start..end' - 1])
             = Inr (map (rendered_row ?data start (populate_lo s start end')
                           (populate_hi s start end')) [start..end' - 1])"
  proof (rule populateRows_map)
    fix x assume "x \<in> set [start..end' - 1]" "populate_lo s start end' \<le> x"
      "x < populate_hi s start end'"
    then show "0 \<le> x - start \<and> nat (x - start) < length ?data"
      using exact hi_le lo_ge by auto
  qed
  show ?thesis
    using start le
    by (simp add: renderRowGroupContents_def Let_def gd lo hi pop group_rows_def
          set_group_rows_def split: rowgroup.splits)
qed


lemma grid_invariant_iff:
  "grid_invariant s \<longleftrightarrow>
     (map data_row_idx (scrollinggroup s) = [rbegin (viewport s)..rend (viewport s) - 1]
      \<and> rbegin (viewport s) \<le> rend (viewport s)
      \<and> (\<forall>row \<in> set (scrollinggroup s). id_matches (workingSet s) row))"
proof -
  have "int (length (scrollinggroup s)) = rend (viewport s) - rbegin (viewport s)
        \<longleftrightarrow> rbegin (viewport s) \<le> rend (viewport s)"
    if "map data_row_idx (scrollinggroup s) = [rbegin (viewport s)..rend (viewport s) - 1]"
  proof -
    have "length (scrollinggroup s) = length [rbegin (viewport s)..rend (viewport s) - 1]"
      using that by (metis length_map)
    then show ?thesis by auto
  qed
  then show ?thesis by (auto simp: grid_invariant_def list_all_iff)
qed

lemma and_then_Inr: "and_then m f = Inr y \<longleftrightarrow> (\<exists>x. m = Inr x \<and> f x = Inr y)"
  by (cases m) simp_all

lemma debug_verify_Inr: "debug_verify s = Inr s' \<Longrightarrow> s' = s"
  by (auto simp: debug_verify_def and_then_Inr)

lemma renderRowGroupContents_frame:
  assumes "renderRowGroupContents a b g p i s = Inr s'"
  shows "viewport s' = viewport s" and "removedRows s' = removedRows s"
    and "recordCount s' = recordCount s" and "options s' = options s"
  using assms
  by (auto simp: renderRowGroupContents_def getData_def Let_def and_then_Inr set_group_rows_def
           querySelectorAll_eq_def
           split: if_splits rowgroup.splits option.splits)

lemma setViewport_result:
  assumes "setViewport ov r s = Inr s1"
  shows "viewport s1 = r" and "debug_verify s1 = Inr s1"
proof -
  obtain t where t: "debug_verify t = Inr s1" and vt: "viewport t = r"
    using assms
    by (auto simp: setViewport_def Let_def and_then_Inr destroyRows_def empty_scrolling_def
             split: if_splits dest!: renderRowGroupContents_frame(1))
  have "s1 = t" using t by (rule debug_verify_Inr)
  then show "viewport s1 = r" and "debug_verify s1 = Inr s1" using t vt by simp_all
qed

lemma setViewport_same:
  assumes "ov r r" and "viewport s1 = r" and "debug_verify s1 = Inr s1"
  shows "setViewport ov r s1 = Inr s1"
proof -
  have same: "s1\<lparr> viewport := r \<rparr> = s1" using assms(2) by simp
  show ?thesis
    unfolding setViewport_def Let_def same using assms by simp
qed

lemma overlap_empty: "rend r \<le> rbegin r \<Longrightarrow> \<not> overlap r p"
  by (simp add: overlap_def)

lemma resets_keep_stale:
  assumes q: "q < length (subscriptionQueues s)" and cur: "dataSubscriptions s = Some q"
  shows "q < length (subscriptionQueues ((resetDataSubscriptions ^^ Suc n) s))
       \<and> subscriptionQueues ((resetDataSubscriptions ^^ Suc n) s) ! q = Suc (subscriptionQueues s ! q)
       \<and> (\<exists>q'. dataSubscriptions ((resetDataSubscriptions ^^ Suc n) s) = Some q' \<and> q < q'
               \<and> q' < length (subscriptionQueues ((resetDataSubscriptions ^^ Suc n) s)))"
proof (induction n)
  case 0
  show ?case
    using q cur by (simp add: resetDataSubscriptions_def cancel_def Let_def nth_append)
next
  case (Suc n)
  let ?t = "(resetDataSubscriptions ^^ Suc n) s"
  obtain q' where t: "q < length (subscriptionQueues ?t)"
    "subscriptionQueues ?t ! q = Suc (subscriptionQueues s ! q)"
    "dataSubscriptions ?t = Some q'" "q < q'" "q' < length (subscriptionQueues ?t)"
    using Suc by blast
  have step: "(resetDataSubscriptions ^^ Suc (Suc n)) s = resetDataSubscriptions ?t"
    by simp
  show ?case
    unfolding step using t
    by (simp add: resetDataSubscriptions_def cancel_def Let_def nth_append)
qed

lemma data_row_idx_rendered_row [simp]:
  "data_row_idx (rendered_row dataSubset start lo hi x) = x"
  by (simp add: rendered_row_def new_shell_def)

lemma group_rows_set_group_rows [simp]:
  "group_rows g (set_group_rows g rows s) = rows"
  by (cases g) (simp_all add: group_rows_def set_group_rows_def)

lemma createdRows_set_group_rows [simp]:
  "createdRows (set_group_rows g rows s) = createdRows s"
  by (cases g) (simp_all add: set_group_rows_def)

lemma setViewport_superset_keeps_rows:
  assumes ret: "setViewport overlap r s = Inr s'"
    and sup: "rbegin r \<le> rbegin (viewport s)" "rend (viewport s) \<le> rend r"
    and nonempty: "rbegin (viewport s) < rend (viewport s)"
  shows "removedRows s' = removedRows s"
proof -
  have ov: "overlap r (viewport s)"
    using sup nonempty by (simp add: overlap_def)
  have no_tail: "\<not> (rend r < rend (viewport s) \<and> rend r > rbegin (viewport s))"
    using sup by simp
  have no_head: "\<not> rbegin r > rbegin (viewport s)"
    using sup by simp
  obtain t where "debug_verify t = Inr s'" and "removedRows t = removedRows s"
    using ret ov no_tail no_head
    by (auto simp: setViewport_def Let_def and_then_Inr split: if_splits
             dest!: renderRowGroupContents_frame(2))
  then show ?thesis
    using debug_verify_Inr by blast
qed

lemma js_rem_2: "0 \<le> b \<Longrightarrow> js_rem b 2 = b mod 2"
  by (simp add: js_rem_def sgn_if)

lemma viewRange_bounds:
  assumes "0 \<le> frozenRowsTop (options s)"
  shows "frozenRowsTop (options s) - 1 \<le> rbegin (viewRange s)"
    and "rend (viewRange s) \<le> recordCount s - frozenRowsBottom (options s)"
    and "even (frozenRowsTop (options s)) \<Longrightarrow> frozenRowsTop (options s) \<le> rbegin (viewRange s)"
proof -
  define start where "start = frozenRowsTop (options s)"
  define b where "b = max start
      (rbegin (rowsInView (options s) (recordCount s) (scrollTop s)
                 (scrollTop s + scrollAreaHeight s) start
                 (recordCount s - frozenRowsBottom (options s)))
       - virtualScrollingExcess (options s))"
  have ge: "start \<le> b" and nonneg: "0 \<le> b"
    using assms by (simp_all add: b_def start_def)
  have vb: "rbegin (viewRange s) = b - b mod 2"
    using nonneg by (simp add: viewRange_def viewRange_of_def Let_def js_rem_2 b_def start_def)
  have "start - 1 \<le> b - b mod 2"
    using ge by presburger
  then show "frozenRowsTop (options s) - 1 \<le> rbegin (viewRange s)"
    by (simp add: vb start_def)
  show "rend (viewRange s) \<le> recordCount s - frozenRowsBottom (options s)"
    by (simp add: viewRange_def viewRange_of_def Let_def)
  have "start \<le> b - b mod 2" if "even start"
    using ge that by presburger
  then show "frozenRowsTop (options s) \<le> rbegin (viewRange s)"
    if "even (frozenRowsTop (options s))"
    using that by (simp add: vb start_def)
qed

lemma loaded_grid_reached:
  "map_sum id (\<lambda>s. (recordCount s, workingSet s, viewport s, scrollinggroup s, headergroup s,
                     footergroup s, subscriptionQueues s, dataSubscriptions s, createdRows s,
                     removedRows s))
     (and_then (renderData_callback overlap 100 (blank_grid defaultOptions))
        (setViewport overlap \<lparr> rbegin = 40, rend = 60 \<rparr>))
   = Inr (100, workingSet (loaded_grid defaultOptions 100 40 60), \<lparr> rbegin = 40, rend = 60 \<rparr>,
          scrollinggroup (loaded_grid defaultOptions 100 40 60), [], [], [1, 0], Some 1,
          [40..59], [])"
  by code_simp

text \<open>
  The remaining auxiliary facts show which operations keep the scrolling group in step with
  the viewport. \<open>covers\<close> at the viewport's bounds is the invariant together with
  \<open>viewport_loaded\<close>.
\<close>

lemma covers_iff:
  "covers s a b \<longleftrightarrow>
     a \<le> b
     \<and> map data_row_idx (scrollinggroup s) = [a..b - 1]
     \<and> (\<forall>row \<in> set (scrollinggroup s). id_matches (workingSet s) row)
     \<and> (\<forall>i. a \<le> i \<and> i < b \<longrightarrow> ws_at (workingSet s) i \<noteq> Hole)"
  by (auto simp: covers_def list_all_iff)

lemma covers_viewport:
  "covers s (rbegin (viewport s)) (rend (viewport s)) \<longleftrightarrow> grid_invariant s \<and> viewport_loaded s"
  by (auto simp: covers_iff grid_invariant_iff viewport_loaded_iff)

lemma take_upto: "0 \<le> n \<Longrightarrow> take (nat n) [a..b] = [a..min b (a + n - 1)]"
proof (cases "a + n \<le> b")
  case True
  assume n: "0 \<le> n"
  have "[a..b] = [a..a + n - 1] @ [a + n..b]"
    using upto_split1 [of a "a + n" b] True n by simp
  moreover have "length [a..a + n - 1] = nat n" using n by simp
  ultimately have "take (nat n) [a..b] = [a..a + n - 1]" by simp
  then show ?thesis using True by (simp add: min_def)
next
  case False
  assume n: "0 \<le> n"
  then have "length [a..b] \<le> nat n" using False by simp
  then have "take (nat n) [a..b] = [a..b]" by simp
  then show ?thesis using False by (simp add: min_def)
qed

lemma drop_upto: "0 \<le> n \<Longrightarrow> drop (nat n) [a..b] = [a + n..b]"
proof (cases "a + n \<le> b")
  case True
  assume n: "0 \<le> n"
  have "[a..b] = [a..a + n - 1] @ [a + n..b]"
    using upto_split1 [of a "a + n" b] True n by simp
  moreover have "length [a..a + n - 1] = nat n" using n by simp
  ultimately show ?thesis by simp
next
  case False
  assume n: "0 \<le> n"
  then have "length [a..b] \<le> nat n" using False by simp
  then show ?thesis using False by simp
qed

lemma upto_append: "a \<le> b \<Longrightarrow> b \<le> c \<Longrightarrow> [a..b - 1] @ [b..c - 1] = [a..c - (1::int)]"
proof (cases "b = c")
  case True
  then show ?thesis by simp
next
  case False
  assume "a \<le> b" "b \<le> c"
  then show ?thesis using False upto_split1 [of a b "c - 1"] by simp
qed

lemma covers_frame:
  assumes "scrollinggroup t = scrollinggroup s" "workingSet t = workingSet s"
  shows "covers t a b = covers s a b"
  using assms by (simp add: covers_def)

lemma populate_full:
  assumes "rbegin (viewport s) \<le> b" "c \<le> rend (viewport s)"
  shows "populate_lo s b c = b" "populate_hi s b c = c"
  using assms by (simp_all add: populate_lo_def populate_hi_def)

lemma id_matches_rendered:
  assumes b0: "0 \<le> b" and x: "b \<le> x" "x < c" and len: "length data = nat (c - b)"
  shows "id_matches (fill_entries ws b c data) (rendered_row data b b c x)"
proof -
  have "nth_opt data (x - b) = Some (data ! nat (x - b))"
    using x len by (simp add: nth_opt_def)
  then show ?thesis
    using x by (simp add: id_matches_def rendered_row_def ws_at_fill_entries [OF b0])
qed

lemma id_matches_outside_fill:
  assumes b0: "0 \<le> b" and out: "data_row_idx row < b \<or> c \<le> data_row_idx row"
  shows "id_matches (fill_entries ws b c data) row = id_matches ws row"
  using out by (auto simp: id_matches_def ws_at_fill_entries [OF b0])

lemma render_append:
  assumes cov: "covers s a b" and b0: "0 \<le> b" and bc: "b \<le> c" and rc: "0 \<le> recordCount s"
    and exact: "length (dataSource s b c) = nat (c - b)"
    and vis: "rbegin (viewport s) \<le> b" "c \<le> rend (viewport s)"
  shows "\<exists>s'. renderRowGroupContents b c ScrollingGroup False None s = Inr s'
           \<and> covers s' a c \<and> viewport s' = viewport s \<and> options s' = options s
           \<and> recordCount s' = recordCount s \<and> dataSource s' = dataSource s
           \<and> removedRows s' = removedRows s"
proof -
  let ?data = "dataSource s b c"
  let ?new = "map (rendered_row ?data b b c) [b..c - 1]"
  let ?s' = "s\<lparr> workingSet := fill_entries (workingSet s) b c ?data,
                createdRows := createdRows s @ [b..c - 1],
                scrollinggroup := scrollinggroup s @ ?new \<rparr>"
  have ret: "renderRowGroupContents b c ScrollingGroup False None s = Inr ?s'"
    using renderRowGroupContents_ok [OF b0 bc rc exact, of ScrollingGroup False]
    by (simp add: populate_full [OF vis] set_group_rows_def group_rows_def insert_rows_def)
  have ab: "a \<le> b" and tags: "map data_row_idx (scrollinggroup s) = [a..b - 1]"
    and ids: "\<And>row. row \<in> set (scrollinggroup s) \<Longrightarrow> id_matches (workingSet s) row"
    and loaded: "\<And>i. a \<le> i \<Longrightarrow> i < b \<Longrightarrow> ws_at (workingSet s) i \<noteq> Hole"
    using cov by (simp_all add: covers_iff)
  have old_idx: "data_row_idx row < b" if "row \<in> set (scrollinggroup s)" for row
  proof -
    have "data_row_idx row \<in> set (map data_row_idx (scrollinggroup s))" using that by simp
    then show ?thesis unfolding tags by simp
  qed
  have "covers ?s' a c"
    unfolding covers_iff
  proof (intro conjI ballI allI impI)
    show "a \<le> c" using ab bc by simp
    show "map data_row_idx (scrollinggroup ?s') = [a..c - 1]"
      using upto_append [OF ab bc] by (simp add: tags comp_def)
    fix row assume "row \<in> set (scrollinggroup ?s')"
    then consider (old) "row \<in> set (scrollinggroup s)"
      | (new) x where "b \<le> x" "x < c" "row = rendered_row ?data b b c x"
      by auto
    then show "id_matches (workingSet ?s') row"
    proof cases
      case old
      then show ?thesis
        using ids old_idx id_matches_outside_fill [OF b0, where row = row] by simp
    next
      case new
      then show ?thesis
        using id_matches_rendered [OF b0 _ _ exact] by simp
    qed
  next
    fix i assume "a \<le> i \<and> i < c"
    then show "ws_at (workingSet ?s') i \<noteq> Hole"
      using loaded [of i] by (simp add: ws_at_fill_entries [OF b0])
  qed
  then show ?thesis using ret by simp
qed

lemma render_prepend:
  assumes cov: "covers s b c" and a0: "0 \<le> a" and ab: "a \<le> b" and rc: "0 \<le> recordCount s"
    and exact: "length (dataSource s a b) = nat (b - a)"
    and vis: "rbegin (viewport s) \<le> a" "b \<le> rend (viewport s)"
  shows "\<exists>s'. renderRowGroupContents a b ScrollingGroup True None s = Inr s'
           \<and> covers s' a c \<and> viewport s' = viewport s \<and> options s' = options s
           \<and> recordCount s' = recordCount s \<and> dataSource s' = dataSource s
           \<and> removedRows s' = removedRows s"
proof -
  let ?data = "dataSource s a b"
  let ?new = "map (rendered_row ?data a a b) [a..b - 1]"
  let ?s' = "s\<lparr> workingSet := fill_entries (workingSet s) a b ?data,
                createdRows := createdRows s @ [a..b - 1],
                scrollinggroup := ?new @ scrollinggroup s \<rparr>"
  have ret: "renderRowGroupContents a b ScrollingGroup True None s = Inr ?s'"
    using renderRowGroupContents_ok [OF a0 ab rc exact, of ScrollingGroup True]
    by (simp add: populate_full [OF vis] set_group_rows_def group_rows_def insert_rows_def)
  have bc: "b \<le> c" and tags: "map data_row_idx (scrollinggroup s) = [b..c - 1]"
    and ids: "\<And>row. row \<in> set (scrollinggroup s) \<Longrightarrow> id_matches (workingSet s) row"
    and loaded: "\<And>i. b \<le> i \<Longrightarrow> i < c \<Longrightarrow> ws_at (workingSet s) i \<noteq> Hole"
    using cov by (simp_all add: covers_iff)
  have old_idx: "b \<le> data_row_idx row" if "row \<in> set (scrollinggroup s)" for row
  proof -
    have "data_row_idx row \<in> set (map data_row_idx (scrollinggroup s))" using that by simp
    then show ?thesis unfolding tags by simp
  qed
  have "covers ?s' a c"
    unfolding covers_iff
  proof (intro conjI ballI allI impI)
    show "a \<le> c" using ab bc by simp
    show "map data_row_idx (scrollinggroup ?s') = [a..c - 1]"
      using upto_append [OF ab bc] by (simp add: tags comp_def)
    fix row assume "row \<in> set (scrollinggroup ?s')"
    then consider (old) "row \<in> set (scrollinggroup s)"
      | (new) x where "a \<le> x" "x < b" "row = rendered_row ?data a a b x"
      by auto
    then show "id_matches (workingSet ?s') row"
    proof cases
      case old
      then show ?thesis
        using ids old_idx id_matches_outside_fill [OF a0, where row = row] by simp
    next
      case new
      then show ?thesis
        using id_matches_rendered [OF a0 _ _ exact] by simp
    qed
  next
    fix i assume "a \<le> i \<and> i < c"
    then show "ws_at (workingSet ?s') i \<noteq> Hole"
      using loaded [of i] by (simp add: ws_at_fill_entries [OF a0])
  qed
  then show ?thesis using ret by simp
qed

lemma rows_split:
  assumes tags: "map data_row_idx rows = [a..c - 1]" and ab: "a \<le> b" and bc: "b \<le> c"
  shows "map data_row_idx (take (nat (b - a)) rows) = [a..b - 1]"
    and "map data_row_idx (drop (nat (b - a)) rows) = [b..c - 1]"
proof -
  have n: "0 \<le> b - a" using ab by simp
  have "map data_row_idx (take (nat (b - a)) rows) = take (nat (b - a)) [a..c - 1]"
    by (simp add: take_map [symmetric] tags)
  also have "\<dots> = [a..min (c - 1) (a + (b - a) - 1)]" by (rule take_upto [OF n])
  also have "\<dots> = [a..b - 1]"
    by (rule arg_cong2 [where f = upto]) (use bc in simp_all)
  finally show "map data_row_idx (take (nat (b - a)) rows) = [a..b - 1]" .
  have "map data_row_idx (drop (nat (b - a)) rows) = drop (nat (b - a)) [a..c - 1]"
    by (simp add: drop_map [symmetric] tags)
  also have "\<dots> = [a + (b - a)..c - 1]" by (rule drop_upto [OF n])
  also have "\<dots> = [b..c - 1]"
    by (rule arg_cong2 [where f = upto]) simp_all
  finally show "map data_row_idx (drop (nat (b - a)) rows) = [b..c - 1]" .
qed

lemma rows_length:
  assumes "map data_row_idx rows = [a..c - 1]" "a \<le> c"
  shows "length rows = nat (c - a)"
proof -
  have "length rows = length [a..c - 1]" using assms(1) by (metis length_map)
  then show ?thesis using assms(2) by simp
qed

lemma destroy_head:
  assumes cov: "covers s a c" and ab: "a \<le> b" and bc: "b \<le> c"
  shows "covers (destroyRows 0 (js_index (length (scrollinggroup s)) (b - a)) s) b c"
proof -
  have tags: "map data_row_idx (scrollinggroup s) = [a..c - 1]"
    and ids: "\<And>row. row \<in> set (scrollinggroup s) \<Longrightarrow> id_matches (workingSet s) row"
    and loaded: "\<And>i. a \<le> i \<Longrightarrow> i < c \<Longrightarrow> ws_at (workingSet s) i \<noteq> Hole"
    using cov by (simp_all add: covers_iff)
  have len: "length (scrollinggroup s) = nat (c - a)"
    using rows_length [OF tags] ab bc by simp
  have k: "js_index (length (scrollinggroup s)) (b - a) = nat (b - a)"
    using ab bc by (simp add: js_index_def len)
  have rows: "scrollinggroup (destroyRows 0 (nat (b - a)) s) = drop (nat (b - a)) (scrollinggroup s)"
    by (simp add: destroyRows_def)
  show ?thesis
    unfolding k covers_iff rows
    using bc rows_split(2) [OF tags ab bc] ids loaded ab
    by (auto simp: destroyRows_def dest: in_set_dropD)
qed

lemma destroy_tail:
  assumes cov: "covers s a c" and ab: "a \<le> b" and bc: "b \<le> c"
  shows "covers (destroyRows (js_index (length (scrollinggroup s)) (b - a))
                   (length (scrollinggroup s)) s) a b"
proof -
  have tags: "map data_row_idx (scrollinggroup s) = [a..c - 1]"
    and ids: "\<And>row. row \<in> set (scrollinggroup s) \<Longrightarrow> id_matches (workingSet s) row"
    and loaded: "\<And>i. a \<le> i \<Longrightarrow> i < c \<Longrightarrow> ws_at (workingSet s) i \<noteq> Hole"
    using cov by (simp_all add: covers_iff)
  have len: "length (scrollinggroup s) = nat (c - a)"
    using rows_length [OF tags] ab bc by simp
  have k: "js_index (length (scrollinggroup s)) (b - a) = nat (b - a)"
    using ab bc by (simp add: js_index_def len)
  have le: "nat (b - a) \<le> length (scrollinggroup s)"
    using ab bc by (simp add: len)
  have rows: "scrollinggroup (destroyRows (nat (b - a)) (length (scrollinggroup s)) s)
              = take (nat (b - a)) (scrollinggroup s)"
    using le by (simp add: destroyRows_def max_def)
  show ?thesis
    unfolding k covers_iff rows
    using ab rows_split(1) [OF tags ab bc] ids loaded bc
    by (auto simp: destroyRows_def dest: in_set_takeD)
qed

lemma covers_empty:
  "covers (empty_scrolling s) a a"
  by (auto simp: covers_iff empty_scrolling_def)

lemma setViewport_keeps_invariant:
  fixes s :: "'i grid"
  assumes inv: "grid_invariant s" "viewport_loaded s"
    and top: "0 \<le> frozenRowsTop (options s)" and bottom: "0 \<le> frozenRowsBottom (options s)"
    and lo: "frozenRowsTop (options s) \<le> rbegin r" and mid: "rbegin r \<le> rend r"
    and hi: "rend r \<le> recordCount s - frozenRowsBottom (options s)"
    and exact: "\<And>a b. 0 \<le> a \<Longrightarrow> a \<le> b \<Longrightarrow> b \<le> recordCount s
                  \<Longrightarrow> length (dataSource s a b) = nat (b - a)"
  shows "\<exists>s'. setViewport overlap r s = Inr s' \<and> grid_invariant s' \<and> viewport_loaded s'
           \<and> viewport s' = r \<and> recordCount s' = recordCount s \<and> options s' = options s
           \<and> dataSource s' = dataSource s"
proof -
  define pb pe rb re where "pb = rbegin (viewport s)" and "pe = rend (viewport s)"
    and "rb = rbegin r" and "re = rend r"
  define start end' where "start = frozenRowsTop (options s)"
    and "end' = recordCount s - frozenRowsBottom (options s)"
  define s0 where "s0 = s\<lparr> viewport := r \<rparr>"
  define head where "head =
     (if rb < pb then
        renderRowGroupContents (max start rb) (min re pb) ScrollingGroup True None s0
      else if rb > pb then
        Inr (destroyRows 0 (js_index (length (scrollinggroup s0)) (rb - pb)) s0)
      else Inr s0)"
  define tail where "tail = (\<lambda>s1 :: 'i grid.
     if re < pe \<and> re > pb then
       Inr (destroyRows (js_index (length (scrollinggroup s1)) (re - rb))
              (length (scrollinggroup s1)) s1)
     else if re > pe then
       renderRowGroupContents (max pe rb) (min re end') ScrollingGroup False None s1
     else Inr s1)"
  define rebuild where "rebuild =
     (if min re end' > max start rb then
        renderRowGroupContents (max start rb) (min re end') ScrollingGroup False None
          (empty_scrolling s0)
      else Inr (empty_scrolling s0))"
  have unfold: "setViewport overlap r s
      = and_then (if overlap r (viewport s) then and_then head tail else rebuild) debug_verify"
    unfolding setViewport_def Let_def head_def tail_def rebuild_def s0_def pb_def pe_def rb_def
      re_def start_def end'_def
    by (rule refl)
  have rc0: "0 \<le> recordCount s" and rb0: "0 \<le> rb" and re_rc: "re \<le> recordCount s"
    and clamp: "max start rb = rb" "min re end' = re"
    using top bottom lo mid hi by (simp_all add: rb_def re_def start_def end'_def)
  have cov: "covers s pb pe"
    using inv by (simp add: covers_viewport pb_def pe_def)
  then have cov0: "covers s0 pb pe"
    by (simp add: covers_def s0_def)
  have pbe: "pb \<le> pe" using cov by (simp add: covers_iff)
  have frame0: "viewport s0 = r" "options s0 = options s" "recordCount s0 = recordCount s"
    "dataSource s0 = dataSource s"
    by (simp_all add: s0_def)
  have r: "rbegin r = rb" "rend r = re"
    by (simp_all add: rb_def re_def)
  have finish: "\<exists>s'. setViewport overlap r s = Inr s' \<and> grid_invariant s' \<and> viewport_loaded s'
           \<and> viewport s' = r \<and> recordCount s' = recordCount s \<and> options s' = options s
           \<and> dataSource s' = dataSource s"
    if "(if overlap r (viewport s) then and_then head tail else rebuild) = Inr t"
      and "covers t rb re" and "viewport t = r" and "recordCount t = recordCount s"
      and "options t = options s" and "dataSource t = dataSource s" for t
  proof -
    have "grid_invariant t \<and> viewport_loaded t"
      using that(2,3) covers_viewport [of t] by (simp add: r)
    moreover from this have "debug_verify t = Inr t" by (simp add: debug_verify_loaded)
    ultimately show ?thesis using that unfold by simp
  qed
  show ?thesis
  proof (cases "overlap r (viewport s)")
    case False
    have e: "covers (empty_scrolling s0) rb rb" by (rule covers_empty)
    have fe: "viewport (empty_scrolling s0) = r" "options (empty_scrolling s0) = options s"
      "recordCount (empty_scrolling s0) = recordCount s"
      "dataSource (empty_scrolling s0) = dataSource s"
      by (simp_all add: empty_scrolling_def s0_def)
    show ?thesis
    proof (cases "rb < re")
      case True
      have "length (dataSource (empty_scrolling s0) rb re) = nat (re - rb)"
        using exact [OF rb0 _ re_rc] True fe by simp
      then obtain t where "renderRowGroupContents rb re ScrollingGroup False None (empty_scrolling s0) = Inr t"
        and "covers t rb re" "viewport t = r" "recordCount t = recordCount s"
        "options t = options s" "dataSource t = dataSource s"
        using render_append [OF e rb0 _ _ _, of re] True rc0 fe
        by (auto simp: r)
      then show ?thesis
        using False True clamp by (intro finish [of t]) (simp_all add: rebuild_def)
    next
      case empty: False
      then have "re = rb" using mid by (simp add: r)
      then show ?thesis
        using False e fe clamp by (intro finish [of "empty_scrolling s0"]) (simp_all add: rebuild_def)
    qed
  next
    case True
    then have ov: "rb < pe" "pb < re" "rb < re" "pb < pe"
      by (simp_all add: overlap_def rb_def re_def pb_def pe_def)
    have "\<exists>s1. head = Inr s1 \<and> covers s1 rb pe \<and> viewport s1 = r \<and> recordCount s1 = recordCount s
            \<and> options s1 = options s \<and> dataSource s1 = dataSource s"
    proof -
      consider (grow) "rb < pb" | (shrink) "rb > pb" | (same) "rb = pb" by linarith
      then show ?thesis
      proof cases
        case grow
        have m: "min re pb = pb" using ov by simp
        have "length (dataSource s0 rb pb) = nat (pb - rb)"
          using exact [OF rb0, of pb] grow ov re_rc frame0 by simp
        then show ?thesis
          using render_prepend [OF cov0 rb0 _ _ _, of ] grow rc0 frame0 ov
          by (auto simp: head_def clamp m r)
      next
        case shrink
        then show ?thesis
          using destroy_head [OF cov0, of rb] ov frame0
          by (auto simp: head_def destroyRows_def)
      next
        case same
        then show ?thesis using cov0 frame0 by (simp add: head_def)
      qed
    qed
    then obtain s1 where h: "head = Inr s1" and cov1: "covers s1 rb pe" and f1: "viewport s1 = r"
      "recordCount s1 = recordCount s" "options s1 = options s" "dataSource s1 = dataSource s"
      by blast
    have "\<exists>t. tail s1 = Inr t \<and> covers t rb re \<and> viewport t = r \<and> recordCount t = recordCount s
            \<and> options t = options s \<and> dataSource t = dataSource s"
    proof -
      consider (shrink) "re < pe" | (grow) "re > pe" | (same) "re = pe" by linarith
      then show ?thesis
      proof cases
        case shrink
        then show ?thesis
          using destroy_tail [OF cov1, of re] ov f1
          by (auto simp: tail_def destroyRows_def)
      next
        case grow
        have m: "max pe rb = pe" using ov by simp
        have pe0: "0 \<le> pe" using rb0 ov by simp
        have "length (dataSource s1 pe re) = nat (re - pe)"
          using exact [OF pe0 _ re_rc] grow f1 by simp
        then show ?thesis
          using render_append [OF cov1 pe0 _ _ _, of re] grow rc0 f1 ov
          by (auto simp: tail_def clamp m r)
      next
        case same
        then show ?thesis using cov1 f1 by (simp add: tail_def)
      qed
    qed
    then obtain t where "tail s1 = Inr t" "covers t rb re" "viewport t = r"
      "recordCount t = recordCount s" "options t = options s" "dataSource t = dataSource s"
      by blast
    then show ?thesis
      using True h by (intro finish [of t]) simp_all
  qed
qed

lemma segment_iff:
  "segment ws rows a b \<longleftrightarrow>
     a \<le> b
     \<and> map data_row_idx rows = [a..b - 1]
     \<and> (\<forall>row \<in> set rows. id_matches ws row)
     \<and> (\<forall>i. a \<le> i \<and> i < b \<longrightarrow> ws_at ws i \<noteq> Hole)"
  by (auto simp: segment_def list_all_iff)

lemma covers_segment: "covers s a b = segment (workingSet s) (scrollinggroup s) a b"
  by (simp add: covers_def segment_def)

lemma segment_idx:
  assumes "segment ws rows a b" "row \<in> set rows"
  shows "a \<le> data_row_idx row" "data_row_idx row < b"
proof -
  have tags: "map data_row_idx rows = [a..b - 1]" using assms(1) by (simp add: segment_iff)
  have "data_row_idx row \<in> set (map data_row_idx rows)" using assms(2) by simp
  then have "data_row_idx row \<in> set [a..b - 1]" unfolding tags .
  then show "a \<le> data_row_idx row" "data_row_idx row < b" by simp_all
qed

lemma segment_nil: "segment ws [] a a"
  by (auto simp: segment_iff)

lemma segment_ws_cong:
  assumes seg: "segment ws rows a b"
    and same: "\<And>i. a \<le> i \<Longrightarrow> i < b \<Longrightarrow> ws_at ws' i = ws_at ws i"
  shows "segment ws' rows a b"
  unfolding segment_iff
proof (intro conjI ballI allI impI)
  show "a \<le> b" "map data_row_idx rows = [a..b - 1]"
    using seg by (simp_all add: segment_iff)
  fix row assume row: "row \<in> set rows"
  then have "ws_at ws' (data_row_idx row) = ws_at ws (data_row_idx row)"
    using segment_idx [OF seg row] same by simp
  then show "id_matches ws' row"
    using seg row by (simp add: segment_iff id_matches_def)
next
  fix i assume "a \<le> i \<and> i < b"
  then show "ws_at ws' i \<noteq> Hole" using seg same by (simp add: segment_iff)
qed

text \<open>
  The mutation handlers. Every path of a handler that relabels rows goes through
  \<open>_incrementRowIndexes\<close>, which raises; so do the paths that cut the selection of rows
  with \<open>slice\<close> or walk the parts with \<open>each\<close>.
\<close>

lemma run_Inl: "f s = Inl e \<Longrightarrow> run f s = Thrown e s"
  by (simp add: run_def)

lemma run_Inr: "f s = Inr s' \<Longrightarrow> run f s = Returned s'"
  by (simp add: run_def)

lemma run_pure: "run (\<lambda>u. Inr (g u)) s = Returned (g s)"
  by (simp add: run_def)

lemma then_do_simps [simp]:
  "then_do (Returned s) f = f s" "then_do (Thrown e s) f = Thrown e s"
  by (simp_all add: then_do_def)

lemma raised_simps [simp]:
  "raised (Returned s) = None" "raised (Thrown e s) = Some e"
  "grid_of (Returned s) = s" "grid_of (Thrown e s) = s"
  by (simp_all add: raised_def grid_of_def)

lemma incrementRowIndexes_raises: "incrementRowIndexes start offset s = Inl TypeError"
  by (simp add: incrementRowIndexes_def container_find_each_def)

lemma renderRowGroupContents_atIndex_raises:
  assumes "atIndex \<noteq> None" and "atIndex \<noteq> Some (- 1) \<or> prepend"
  shows "renderRowGroupContents start end' g prepend atIndex s = Inl SyntaxError"
  using assms
  by (auto simp: renderRowGroupContents_def Let_def querySelectorAll_eq_def split: option.splits)

lemma removeRows_index_mismatch:
  assumes "end' > recordCount s \<or> end' < start"
  shows "removeRows start end' s = Thrown IndexMismatch s"
  using assms by (auto simp: removeRows_def)

lemma removeRows_before_raises:
  assumes le: "start \<le> end'" and rc: "end' \<le> recordCount s"
    and before: "end' \<le> rbegin (viewport s)"
  shows "removeRows start end' s
         = Thrown TypeError
             (s\<lparr> recordCount := recordCount s - (end' - start),
                 workingSet := js_splice (workingSet s) start (end' - start),
                 viewport := \<lparr> rbegin = rbegin (viewport s) - (end' - start),
                               rend = rend (viewport s) - (end' - start) \<rparr> \<rparr>)"
  using assms by (simp add: removeRows_def Let_def run_Inl [OF incrementRowIndexes_raises])

lemma removeRows_cut_raises:
  assumes le: "start \<le> end'" and rc: "end' \<le> recordCount s"
    and overlap: "rbegin (viewport s) < end'" "start < rend (viewport s)"
    and cut: "end' < rend (viewport s) \<or> rbegin (viewport s) < start"
  shows "removeRows start end' s
         = Thrown TypeError
             (s\<lparr> recordCount := recordCount s - (end' - start),
                 workingSet := js_splice (workingSet s) start (end' - start) \<rparr>)"
  using assms by (auto simp: removeRows_def Let_def run_def children_slice_def)

lemma removeRows_keeps_invariant:
  fixes s :: "'i grid"
  assumes inv: "grid_invariant s" "viewport_loaded s"
    and start: "0 \<le> start" and le: "start \<le> end'" and rc: "end' \<le> recordCount s"
    and not_before: "rbegin (viewport s) < end'"
    and whole: "rend (viewport s) \<le> start
                \<or> start \<le> rbegin (viewport s) \<and> rend (viewport s) \<le> end'"
  shows "\<exists>s'. removeRows start end' s = Returned s' \<and> grid_invariant s' \<and> viewport_loaded s'"
proof -
  define vb ve k where "vb = rbegin (viewport s)" and "ve = rend (viewport s)"
    and "k = end' - start"
  define ws' where "ws' = js_splice (workingSet s) start k"
  define s1 where "s1 = s\<lparr> recordCount := recordCount s - k, workingSet := ws' \<rparr>"
  have k: "0 \<le> k" using le by (simp add: k_def)
  have ws1: "ws_at ws' i = (if i < start then ws_at (workingSet s) i else ws_at (workingSet s) (i + k))" for i
    unfolding ws'_def by (rule ws_at_js_splice) (use start k in simp_all)
  have seg: "segment (workingSet s) (scrollinggroup s) vb ve"
    using inv covers_viewport [of s] by (simp add: covers_segment vb_def ve_def)
  have vbe: "vb \<le> ve" using seg by (simp add: segment_iff)
  have finish: ?thesis
    if "removeRows start end' s = run debug_verify t"
      and "segment (workingSet t) (scrollinggroup t) (rbegin (viewport t)) (rend (viewport t))" for t
  proof -
    have "grid_invariant t \<and> viewport_loaded t"
      using that(2) covers_viewport [of t] by (simp add: covers_segment)
    then show ?thesis using that(1) debug_verify_loaded [of t] by (simp add: run_def)
  qed
  show ?thesis
  proof (cases "start < ve")
    case False
    have eq: "removeRows start end' s = run debug_verify s1"
      using False not_before le rc
      by (simp add: removeRows_def Let_def s1_def ws'_def k_def vb_def ve_def)
    have "segment ws' (scrollinggroup s) vb ve"
      using seg by (rule segment_ws_cong) (use False in \<open>simp add: ws1\<close>)
    then have "segment (workingSet s1) (scrollinggroup s1) (rbegin (viewport s1)) (rend (viewport s1))"
      by (simp add: s1_def vb_def ve_def)
    then show ?thesis by (rule finish [OF eq])
  next
    case True
    then have cover: "start \<le> vb" "ve \<le> end'"
      using whole by (simp_all add: vb_def ve_def)
    obtain t where eq: "removeRows start end' s = run debug_verify t"
      and t: "scrollinggroup t = []" "viewport t = \<lparr> rbegin = start, rend = start \<rparr>"
      using True cover not_before le rc
      by (cases "start < vb")
         (simp_all add: removeRows_def Let_def run_pure destroyRows_def ws'_def k_def vb_def ve_def)
    have "segment (workingSet t) (scrollinggroup t) (rbegin (viewport t)) (rend (viewport t))"
      by (simp add: t segment_nil)
    then show ?thesis by (rule finish [OF eq])
  qed
qed

lemma addRows_index_mismatch:
  assumes "start > recordCount s"
  shows "addRows start end' s = Thrown IndexMismatch s"
  using assms by (simp add: addRows_def)

lemma addRows_negative_length:
  assumes "start \<le> recordCount s" and "end' < start"
  shows "addRows start end' s
         = Thrown RangeError (s\<lparr> recordCount := recordCount s + (end' - start) \<rparr>)"
  using assms by (simp add: addRows_def Let_def)

lemma addRows_before_raises:
  assumes rc: "start \<le> recordCount s" and le: "start \<le> end'"
    and before: "end' < rbegin (viewport s)" and vp: "rbegin (viewport s) \<le> rend (viewport s)"
  shows "addRows start end' s
         = Thrown TypeError
             (s\<lparr> recordCount := recordCount s + (end' - start),
                 workingSet := js_slice (workingSet s) 0 start
                               @ replicate (nat (end' - start)) Hole
                               @ js_slice_from (workingSet s) start,
                 viewport := \<lparr> rbegin = rbegin (viewport s) + (end' - start),
                               rend = rend (viewport s) + (end' - start) \<rparr> \<rparr>)"
  using assms by (simp add: addRows_def Let_def run_Inl [OF incrementRowIndexes_raises])

lemma addRows_overlap_raises:
  assumes rc: "start \<le> recordCount s" and le: "start \<le> end'"
    and overlap: "rbegin (viewport s) \<le> end'" "start < rend (viewport s)"
  shows "addRows start end' s
         = Thrown TypeError
             (s\<lparr> recordCount := recordCount s + (end' - start),
                 workingSet := js_slice (workingSet s) 0 start
                               @ replicate (nat (end' - start)) Hole
                               @ js_slice_from (workingSet s) start \<rparr>)"
proof -
  define s1 where "s1 = s\<lparr> recordCount := recordCount s + (end' - start),
                 workingSet := js_slice (workingSet s) 0 start
                               @ replicate (nat (end' - start)) Hole
                               @ js_slice_from (workingSet s) start \<rparr>"
  have a: "run (all_each f) s1 = Thrown TypeError s1" for f
    by (simp add: run_def all_each_def)
  have b: "run (incrementRowIndexes x y) s1 = Thrown TypeError s1" for x y
    by (rule run_Inl) (rule incrementRowIndexes_raises)
  have "addRows start end' s = Thrown TypeError s1"
    using assms by (simp add: addRows_def Let_def a b flip: s1_def)
  then show ?thesis by (simp add: s1_def)
qed

lemma addRows_keeps_invariant:
  fixes s :: "'i grid"
  assumes inv: "grid_invariant s" "viewport_loaded s"
    and start: "0 \<le> start" and rc: "start \<le> recordCount s" and le: "start \<le> end'"
    and after: "rend (viewport s) \<le> start"
  shows "\<exists>s'. addRows start end' s = Returned s' \<and> grid_invariant s' \<and> viewport_loaded s'"
proof -
  define vb ve k where "vb = rbegin (viewport s)" and "ve = rend (viewport s)"
    and "k = end' - start"
  define ws1 where "ws1 = js_slice (workingSet s) 0 start @ replicate (nat k) Hole
                          @ js_slice_from (workingSet s) start"
  define s1 where "s1 = s\<lparr> recordCount := recordCount s + k, workingSet := ws1 \<rparr>"
  have k: "0 \<le> k" using le by (simp add: k_def)
  have ws1: "ws_at ws1 i = (if i < start then ws_at (workingSet s) i
                            else if i < start + k then Hole else ws_at (workingSet s) (i - k))" for i
    unfolding ws1_def by (rule ws_at_insert_holes) (use start k in simp_all)
  have seg: "segment (workingSet s) (scrollinggroup s) vb ve"
    using inv covers_viewport [of s] by (simp add: covers_segment vb_def ve_def)
  have vbe: "vb \<le> ve" using seg by (simp add: segment_iff)
  have eq: "addRows start end' s = run debug_verify s1"
    using after le rc vbe by (simp add: addRows_def Let_def s1_def ws1_def k_def vb_def ve_def)
  have "segment ws1 (scrollinggroup s) vb ve"
    using seg by (rule segment_ws_cong) (use after in \<open>simp add: ws1 ve_def\<close>)
  then have "segment (workingSet s1) (scrollinggroup s1) (rbegin (viewport s1)) (rend (viewport s1))"
    by (simp add: s1_def vb_def ve_def)
  then have "grid_invariant s1 \<and> viewport_loaded s1"
    using covers_viewport [of s1] by (simp add: covers_segment)
  then show ?thesis using eq debug_verify_loaded [of s1] by (simp add: run_def)
qed

lemma setViewport_collapse:
  fixes s :: "'i grid"
  assumes top: "0 \<le> frozenRowsTop (options s)"
  shows "setViewport overlap \<lparr> rbegin = 0, rend = 0 \<rparr> s
         = Inr (empty_scrolling (s\<lparr> viewport := \<lparr> rbegin = 0, rend = 0 \<rparr> \<rparr>))"
proof -
  let ?t = "empty_scrolling (s\<lparr> viewport := \<lparr> rbegin = 0, rend = 0 \<rparr> \<rparr>)"
  have "viewport_loaded ?t"
    by (auto simp: viewport_loaded_iff empty_scrolling_def)
  then have "debug_verify ?t = Inr ?t" by (rule debug_verify_loaded)
  moreover have "\<not> overlap \<lparr> rbegin = 0, rend = 0 \<rparr> (viewport s)"
    by (rule overlap_empty) simp
  ultimately show ?thesis
    using top by (simp add: setViewport_def Let_def)
qed

lemma renderData_callback_establishes_invariant:
  fixes s :: "'i grid"
  assumes top: "0 \<le> frozenRowsTop (options s)" "frozenRowsTop (options s) \<le> n"
    and bottom: "0 \<le> frozenRowsBottom (options s)" "frozenRowsBottom (options s) \<le> n"
    and exact: "\<And>a b. 0 \<le> a \<Longrightarrow> a \<le> b \<Longrightarrow> b \<le> n \<Longrightarrow> length (dataSource s a b) = nat (b - a)"
  shows "\<exists>s'. renderData_callback overlap n s = Inr s' \<and> grid_invariant s' \<and> viewport_loaded s'
           \<and> viewport s' = \<lparr> rbegin = 0, rend = 0 \<rparr> \<and> scrollinggroup s' = []
           \<and> recordCount s' = n"
proof -
  define P :: "'i grid \<Rightarrow> bool" where
    "P t \<longleftrightarrow> viewport t = \<lparr> rbegin = 0, rend = 0 \<rparr> \<and> scrollinggroup t = []
             \<and> recordCount t = n \<and> options t = options s \<and> dataSource t = dataSource s" for t
  have n0: "0 \<le> n" using top by simp
  have header: "\<exists>t'. renderRowGroupContents 0 (frozenRowsTop (options t)) HeaderGroup False None t = Inr t'
                  \<and> P t'" if "P t" for t
  proof -
    have "length (dataSource t 0 (frozenRowsTop (options t))) = nat (frozenRowsTop (options t) - 0)"
      using that exact [of 0 "frozenRowsTop (options s)"] top by (simp add: P_def)
    then show ?thesis
      using renderRowGroupContents_ok [of 0 "frozenRowsTop (options t)" t HeaderGroup False]
        that top n0
      by (simp add: P_def set_group_rows_def)
  qed
  have footer: "\<exists>t'. renderRowGroupContents (n - frozenRowsBottom (options t)) n FooterGroup False None t
                       = Inr t' \<and> P t'" if "P t" for t
  proof -
    have "length (dataSource t (n - frozenRowsBottom (options t)) n)
          = nat (n - (n - frozenRowsBottom (options t)))"
      using that exact [of "n - frozenRowsBottom (options s)" n] bottom by (simp add: P_def)
    then show ?thesis
      using renderRowGroupContents_ok [of "n - frozenRowsBottom (options t)" n t FooterGroup False]
        that bottom n0
      by (simp add: P_def set_group_rows_def)
  qed
  define s1 where "s1 = s\<lparr> headergroup := (if frozenRowsTop (options s) \<noteq> 0 then [] else headergroup s),
                  footergroup := (if frozenRowsBottom (options s) \<noteq> 0 then [] else footergroup s),
                  removedRows := removedRows s @ (if frozenRowsTop (options s) \<noteq> 0 then headergroup s else [])
                                   @ (if frozenRowsBottom (options s) \<noteq> 0 then footergroup s else []),
                  recordCount := n \<rparr>"
  define s2 where "s2 = (resetDataSubscriptions s1)\<lparr> workingSet := replicate (nat n) Hole \<rparr>"
  define s3 where "s3 = empty_scrolling (s2\<lparr> viewport := \<lparr> rbegin = 0, rend = 0 \<rparr> \<rparr>)"
  have o2: "options s2 = options s"
    by (simp add: s2_def s1_def resetDataSubscriptions_def Let_def)
  have sv: "setViewport overlap \<lparr> rbegin = 0, rend = 0 \<rparr> s2 = Inr s3"
    unfolding s3_def by (rule setViewport_collapse) (simp add: o2 top)
  have P3: "P s3"
    by (simp add: P_def s3_def s2_def s1_def empty_scrolling_def resetDataSubscriptions_def Let_def)
  have eq: "renderData_callback overlap n s
            = and_then (if frozenRowsTop (options s) \<noteq> 0
                        then renderRowGroupContents 0 (frozenRowsTop (options s3)) HeaderGroup
                               False None s3
                        else Inr s3) (\<lambda>s4.
                if frozenRowsBottom (options s) \<noteq> 0
                then renderRowGroupContents (n - frozenRowsBottom (options s4)) n FooterGroup
                       False None s4
                else Inr s4)"
    unfolding renderData_callback_def Let_def
    apply (fold s1_def)
    apply (fold s2_def)
    using n0 sv by simp
  obtain s4 where s4: "(if frozenRowsTop (options s) \<noteq> 0
                        then renderRowGroupContents 0 (frozenRowsTop (options s3)) HeaderGroup
                               False None s3
                        else Inr s3) = Inr s4" and P4: "P s4"
    using header [OF P3] P3 by (cases "frozenRowsTop (options s) \<noteq> 0") auto
  obtain s5 where s5: "(if frozenRowsBottom (options s) \<noteq> 0
                then renderRowGroupContents (n - frozenRowsBottom (options s4)) n FooterGroup
                       False None s4
                else Inr s4) = Inr s5" and P5: "P s5"
    using footer [OF P4] P4 by (cases "frozenRowsBottom (options s) \<noteq> 0") auto
  have "renderData_callback overlap n s = Inr s5"
    using eq s4 s5 by simp
  moreover have "grid_invariant s5" "viewport_loaded s5"
    using P5 by (auto simp: P_def grid_invariant_iff viewport_loaded_iff)
  ultimately show ?thesis using P5 by (simp add: P_def)
qed

subsection \<open>The summarizing data source\<close>



subsection \<open>The viewport tracker\<close>

text \<open>
  C9. \<open>viewRange\<close> clamps \<open>begin\<close> to \<open>frozenRowsTop\<close> and then subtracts \<open>begin % 2\<close>.
  With one frozen row at the top, ten records and the grid scrolled to the top, the
  range it returns begins at row 0, below \<open>frozenRowsTop = 1\<close>.
\<close>

theorem viewRange_below_frozenRowsTop:
  "viewRange ((blank_grid (defaultOptions\<lparr> frozenRowsTop := 1 \<rparr>))\<lparr> recordCount := 10 \<rparr>)
   = \<lparr> rbegin = 0, rend = 10 \<rparr>"
  by code_simp

subsection \<open>Deleting rows\<close>

text \<open>
  C2. With 100 records and the viewport \<open>{40, 60}\<close>, deleting the rows \<open>[45, 70)\<close>: the
  handler lowers the record count to 75 and cuts the working set, then calls \<open>slice\<close> on
  the NodeList of the rows, which raises a TypeError. No row node is taken out of the
  scrolling group, which keeps its twenty nodes with the indices 40 to 59, and the
  viewport stays at \<open>{40, 60}\<close>.
\<close>

theorem removeRows_overlap_destroys_none:
  "raised (removeRows 45 70 (loaded_grid defaultOptions 100 40 60)) = Some TypeError
   \<and> (let s = grid_of (removeRows 45 70 (loaded_grid defaultOptions 100 40 60))
      in (viewport s, recordCount s, map data_row_idx (scrollinggroup s),
          map data_row_idx (removedRows s))
         = (\<lparr> rbegin = 40, rend = 60 \<rparr>, 75, [40..59], []))"
  by code_simp

text \<open>
  C3. With 100 records and the viewport \<open>{40, 60}\<close>, deleting the rows \<open>[10, 20)\<close>, which
  lie before the viewport: the handler lowers the record count, cuts the working set and
  shifts the viewport to \<open>{30, 50}\<close>, then calls \<open>_incrementRowIndexes\<close>, whose
  \<open>this.container.find\<close> raises a TypeError. The row nodes keep the indices 40 to 59,
  none is created or removed, and the grid is left with rows that do not match its
  viewport.
\<close>

theorem removeRows_before_viewport_raises:
  "raised (removeRows 10 20 (loaded_grid defaultOptions 100 40 60)) = Some TypeError
   \<and> (let s = grid_of (removeRows 10 20 (loaded_grid defaultOptions 100 40 60))
      in (viewport s, recordCount s, map data_row_idx (scrollinggroup s),
          map data_row_idx (removedRows s), createdRows s, grid_invariant s)
         = (\<lparr> rbegin = 30, rend = 50 \<rparr>, 90, [40..59], [], [40..59], False))"
  by code_simp

subsection \<open>Preconditions of the mutation handlers\<close>

text \<open>
  C6. The listeners for \<open>rowsremoved\<close> and \<open>rowsadded\<close> hand the error of the handler on
  to the data source that fired the event. On the grid of 100 records with the viewport
  \<open>{40, 60}\<close>, a removal with \<open>end > recordCount\<close> or \<open>end < start\<close> and an insertion with
  \<open>start > recordCount\<close> end in the Index mismatch error and leave the grid untouched
  (in general: \<open>removeRows_index_mismatch\<close>, \<open>addRows_index_mismatch\<close>). Mutations that
  pass these checks raise all the same: a removal or an insertion before the viewport
  and one that cuts into it end in a TypeError, and the insertion of \<open>{50, 45}\<close>, which
  passes the only check of \<open>_addRows\<close>, ends in a RangeError. Mutations behind the
  viewport return. In general a mutation that passes the checks raises whenever it lies
  before the viewport or touches it, a removal that takes the whole viewport away
  excepted: \<open>removeRows_before_raises\<close>, \<open>removeRows_cut_raises\<close>,
  \<open>addRows_before_raises\<close>, \<open>addRows_overlap_raises\<close>, \<open>addRows_negative_length\<close>.
\<close>

theorem in_range_mutations_raise:
  "raised (on_rowsremoved 45 101 (loaded_grid defaultOptions 100 40 60)) = Some IndexMismatch
   \<and> raised (on_rowsremoved 45 44 (loaded_grid defaultOptions 100 40 60)) = Some IndexMismatch
   \<and> raised (on_rowsadded 101 105 (loaded_grid defaultOptions 100 40 60)) = Some IndexMismatch
   \<and> raised (on_rowsremoved 10 20 (loaded_grid defaultOptions 100 40 60)) = Some TypeError
   \<and> raised (on_rowsremoved 45 50 (loaded_grid defaultOptions 100 40 60)) = Some TypeError
   \<and> raised (on_rowsadded 10 20 (loaded_grid defaultOptions 100 40 60)) = Some TypeError
   \<and> raised (on_rowsadded 45 50 (loaded_grid defaultOptions 100 40 60)) = Some TypeError
   \<and> raised (on_rowsadded 50 45 (loaded_grid defaultOptions 100 40 60)) = Some RangeError
   \<and> raised (on_rowsremoved 70 80 (loaded_grid defaultOptions 100 40 60)) = None
   \<and> raised (on_rowsadded 70 80 (loaded_grid defaultOptions 100 40 60)) = None"
  by code_simp

subsection \<open>Setting the same viewport twice\<close>

text \<open>
  C5. With the overlap test of the spec, whenever \<open>setViewport(r)\<close> returns, calling
  \<open>setViewport(r)\<close> again returns the very same state: no row node is created and none
  is removed by the second call.
\<close>

theorem setViewport_idempotent:
  assumes first: "setViewport overlap r s = Inr s1"
  shows "setViewport overlap r s1 = Inr s1"
proof (cases "overlap r r")
  case True
  then show ?thesis using setViewport_result [OF first] by (intro setViewport_same)
next
  case False
  then have empty: "rend r \<le> rbegin r" by (simp add: overlap_def)
  have no: "\<not> overlap r p" for p using empty by (rule overlap_empty)
  let ?t = "empty_scrolling (s\<lparr> viewport := r \<rparr>)"
  have "setViewport overlap r s = debug_verify ?t"
    using no empty by (simp add: setViewport_def Let_def)
  then have s1: "s1 = ?t" and dv: "debug_verify ?t = Inr ?t"
    using first debug_verify_Inr [of ?t s1] by simp_all
  have again: "empty_scrolling (?t\<lparr> viewport := r \<rparr>) = ?t"
    by (simp add: empty_scrolling_def)
  have "setViewport overlap r ?t = debug_verify ?t"
    unfolding setViewport_def Let_def again using no empty by simp
  then show ?thesis using s1 dv by simp
qed

theorem setViewport_idempotent_witness:
  "and_then (setViewport overlap \<lparr> rbegin = 40, rend = 60 \<rparr> (loaded_grid defaultOptions 100 20 50))
     (\<lambda>s1. map_sum id
        (\<lambda>s2. (createdRows s2 = createdRows s1, removedRows s2 = removedRows s1,
               map data_row_idx (scrollinggroup s2)))
        (setViewport overlap \<lparr> rbegin = 40, rend = 60 \<rparr> s1))
   = Inr (True, True, [40..59])"
proof -
  let ?r = "\<lparr> rbegin = 40, rend = 60 \<rparr>"
  let ?s = "loaded_grid defaultOptions 100 20 50"
  have "map_sum id (\<lambda>s1. map data_row_idx (scrollinggroup s1)) (setViewport overlap ?r ?s) = Inr [40..59]"
    by code_simp
  then obtain s1 where first: "setViewport overlap ?r ?s = Inr s1"
    and rows: "map data_row_idx (scrollinggroup s1) = [40..59]"
    by (cases "setViewport overlap ?r ?s") auto
  show ?thesis
    using setViewport_idempotent [OF first] by (simp add: first rows)
qed

subsection \<open>Stale asynchronous results\<close>

text \<open>
  C7. A callback wrapped by \<open>queue\<close> runs when it is invoked while its queue is still
  current. Once \<open>resetDataSubscriptions\<close> has cancelled that queue, however many resets
  follow, invoking the wrapped callback runs nothing: it returns without an error and
  leaves the whole state, working set and rows included, as it was. The witness is the
  callback that \<open>renderData\<close> queues for the record count.
\<close>

theorem cancelled_callback_never_runs:
  assumes wf: "subscriptions_wf s" and queued: "queue callback s = Inr w"
  shows "invoke w x s = callback x s
       \<and> invoke w x ((resetDataSubscriptions ^^ Suc n) s) = Inr ((resetDataSubscriptions ^^ Suc n) s)"
proof -
  obtain q where cur: "dataSubscriptions s = Some q"
    and w: "w = \<lparr> wrapped_queue = q, wrapped_generation = subscriptionQueues s ! q,
                  wrapped_callback = callback \<rparr>"
    using queued by (auto simp: queue_def split: option.splits)
  have q: "q < length (subscriptionQueues s)"
    using wf cur by (simp add: subscriptions_wf_def)
  have live: "is_current w s"
    using q by (simp add: is_current_def w)
  have stale: "\<not> is_current w ((resetDataSubscriptions ^^ Suc n) s)"
    using resets_keep_stale [OF q cur, of n] by (simp add: is_current_def w)
  show ?thesis
    using live stale by (simp add: invoke_def w)
qed

theorem cancelled_callback_never_runs_witness:
  "subscriptions_wf (blank_grid defaultOptions)
   \<and> and_then (renderData overlap (blank_grid defaultOptions))
        (\<lambda>w. map_sum id recordCount
               (invoke w 100 (resetDataSubscriptions (blank_grid defaultOptions)))) = Inr 0
   \<and> and_then (renderData overlap (blank_grid defaultOptions))
        (\<lambda>w. map_sum id recordCount (invoke w 100 (blank_grid defaultOptions))) = Inr 100"
proof -
  let ?s = "blank_grid defaultOptions"
  have wf: "subscriptions_wf ?s"
    by (simp add: subscriptions_wf_def blank_grid_def)
  obtain w where queued: "renderData overlap ?s = Inr w"
    by (simp add: renderData_def queue_def blank_grid_def)
  have run: "map_sum id recordCount (renderData_callback overlap 100 ?s) = Inr 100"
    by code_simp
  have rc0: "recordCount (resetDataSubscriptions ?s) = 0"
    by (simp add: resetDataSubscriptions_def blank_grid_def Let_def)
  have live: "invoke w 100 ?s = renderData_callback overlap 100 ?s"
    and stale: "invoke w 100 (resetDataSubscriptions ?s) = Inr (resetDataSubscriptions ?s)"
    using cancelled_callback_never_runs [OF wf queued [unfolded renderData_def], of 100 0]
    by simp_all
  show ?thesis
    using wf run by (simp add: queued live stale rc0)
qed

subsection \<open>Lazy population of rendered rows\<close>



subsection \<open>The two-phase viewport update\<close>

text \<open>
  C4, as the source has it. Phase 1 (\<open>updateViewportImmediate(false)\<close>) tests the current
  viewport against the visible range expanded by the excess margin: when they overlap,
  the new viewport is the union of the current viewport and the minimal visible range
  and no row node is removed; when they do not, the minimal visible range replaces the
  viewport. Phase 2 (\<open>updateViewportImmediate(true)\<close>) sets the viewport to exactly the
  excess-expanded visible range. With \<open>virtualScrollingExcess = 0\<close>, 100 records, the
  viewport \<open>{20, 60}\<close> and the minimal visible range \<open>{30, 70}\<close>: phase 1 yields
  \<open>{20, 70}\<close>, creating the rows 60 to 69 and removing none; phase 2 then yields
  \<open>{30, 70}\<close>, removing the rows 20 to 29 and creating none.
\<close>

theorem two_phase_update:
  "(updateViewportImmediate overlap False s = Inr s'
      \<and> overlap (viewport s) (rowsInViewWithExcess s)
    \<longrightarrow> viewport s' = \<lparr> rbegin = min (rbegin (rowsInView_now s)) (rbegin (viewport s)),
                          rend = max (rend (rowsInView_now s)) (rend (viewport s)) \<rparr>
        \<and> removedRows s' = removedRows s)
   \<and> (updateViewportImmediate overlap False s = Inr s'
        \<and> \<not> overlap (viewport s) (rowsInViewWithExcess s)
      \<longrightarrow> viewport s' = rowsInView_now s)
   \<and> (updateViewportImmediate overlap True s = Inr s'
      \<longrightarrow> viewport s' = rowsInViewWithExcess s)
   \<and> rowsInView_now (scrolled_grid no_excess 100 20 60 940 1240) = \<lparr> rbegin = 30, rend = 70 \<rparr>
   \<and> map_sum id churn
        (updateViewportImmediate overlap False (scrolled_grid no_excess 100 20 60 940 1240))
      = Inr (\<lparr> rbegin = 20, rend = 70 \<rparr>, [20..59] @ [60..69], [])
   \<and> map_sum id churn
        (and_then
           (updateViewportImmediate overlap False (scrolled_grid no_excess 100 20 60 940 1240))
           (updateViewportImmediate overlap True))
      = Inr (\<lparr> rbegin = 30, rend = 70 \<rparr>, [20..59] @ [60..69], [20..29])"
proof (intro conjI impI)
  assume a: "updateViewportImmediate overlap False s = Inr s'
             \<and> overlap (viewport s) (rowsInViewWithExcess s)"
  let ?u = "\<lparr> rbegin = min (rbegin (rowsInView_now s)) (rbegin (viewport s)),
              rend = max (rend (rowsInView_now s)) (rend (viewport s)) \<rparr>"
  have ret: "setViewport overlap ?u s = Inr s'"
    using a by (auto simp: updateViewportImmediate_def target_range_def)
  have nonempty: "rbegin (viewport s) < rend (viewport s)"
    using a by (simp add: overlap_def)
  show "viewport s' = ?u"
    using setViewport_result(1) [OF ret] .
  show "removedRows s' = removedRows s"
    using setViewport_superset_keeps_rows [OF ret _ _ nonempty] by simp
next
  assume "updateViewportImmediate overlap False s = Inr s'
          \<and> \<not> overlap (viewport s) (rowsInViewWithExcess s)"
  then have "setViewport overlap (rowsInView_now s) s = Inr s'"
    by (auto simp: updateViewportImmediate_def target_range_def)
  then show "viewport s' = rowsInView_now s"
    by (rule setViewport_result(1))
next
  assume "updateViewportImmediate overlap True s = Inr s'"
  then have "setViewport overlap (rowsInViewWithExcess s) s = Inr s'"
    by (simp add: updateViewportImmediate_def target_range_def)
  then show "viewport s' = rowsInViewWithExcess s"
    by (rule setViewport_result(1))
next
  show "rowsInView_now (scrolled_grid no_excess 100 20 60 940 1240) = \<lparr> rbegin = 30, rend = 70 \<rparr>"
    by code_simp
next
  show "map_sum id churn
        (updateViewportImmediate overlap False (scrolled_grid no_excess 100 20 60 940 1240))
      = Inr (\<lparr> rbegin = 20, rend = 70 \<rparr>, [20..59] @ [60..69], [])"
    by code_simp
next
  show "map_sum id churn
        (and_then
           (updateViewportImmediate overlap False (scrolled_grid no_excess 100 20 60 940 1240))
           (updateViewportImmediate overlap True))
      = Inr (\<lparr> rbegin = 30, rend = 70 \<rparr>, [20..59] @ [60..69], [20..29])"
    by code_simp
qed

theorem two_phase_update_witness:
  "overlap (viewport (scrolled_grid defaultOptions 100 0 20 810 620))
     (rowsInViewWithExcess (scrolled_grid defaultOptions 100 0 20 810 620))
   \<and> map_sum id churn
       (updateViewportImmediate overlap False (scrolled_grid defaultOptions 100 0 20 810 620))
     = Inr (\<lparr> rbegin = 0, rend = 46 \<rparr>, [0..19] @ [20..45], [])
   \<and> \<not> overlap (viewport (scrolled_grid defaultOptions 100 0 20 2000 310))
         (rowsInViewWithExcess (scrolled_grid defaultOptions 100 0 20 2000 310))
   \<and> map_sum id viewport
       (updateViewportImmediate overlap False (scrolled_grid defaultOptions 100 0 20 2000 310))
     = Inr (rowsInView_now (scrolled_grid defaultOptions 100 0 20 2000 310))
   \<and> map_sum id viewport
       (updateViewportImmediate overlap True (scrolled_grid defaultOptions 100 0 20 2000 310))
     = Inr (rowsInViewWithExcess (scrolled_grid defaultOptions 100 0 20 2000 310))"
proof -
  let ?near = "scrolled_grid defaultOptions 100 0 20 810 620"
  let ?far = "scrolled_grid defaultOptions 100 0 20 2000 310"
  have ov: "overlap (viewport ?near) (rowsInViewWithExcess ?near)"
    by code_simp
  have near: "map_sum id churn (updateViewportImmediate overlap False ?near)
              = Inr (\<lparr> rbegin = 0, rend = 46 \<rparr>, [0..19] @ [20..45], [])"
    by code_simp
  have disjoint: "\<not> overlap (viewport ?far) (rowsInViewWithExcess ?far)"
    by code_simp
  have "map_sum id (\<lambda>s. ()) (updateViewportImmediate overlap False ?far) = Inr ()"
    by code_simp
  then obtain s1 where far1: "updateViewportImmediate overlap False ?far = Inr s1"
    by (cases "updateViewportImmediate overlap False ?far") auto
  have "map_sum id (\<lambda>s. ()) (updateViewportImmediate overlap True ?far) = Inr ()"
    by code_simp
  then obtain s2 where far2: "updateViewportImmediate overlap True ?far = Inr s2"
    by (cases "updateViewportImmediate overlap True ?far") auto
  have "viewport s1 = rowsInView_now ?far"
    using two_phase_update [of ?far s1] far1 disjoint by blast
  moreover have "viewport s2 = rowsInViewWithExcess ?far"
    using two_phase_update [of ?far s2] far2 by blast
  ultimately show ?thesis
    using ov near disjoint by (simp add: far1 far2)
qed

text \<open>
  C4 as stated does not hold. With the default excess of 10 rows, the viewport
  \<open>{0, 20}\<close> and the minimal visible range \<open>{26, 46}\<close> are disjoint, yet phase 1 extends
  the viewport to \<open>{0, 46}\<close> instead of replacing it. And from the viewport \<open>{20, 60}\<close>
  with the minimal visible range \<open>{30, 70}\<close>, phase 2 yields \<open>{20, 80}\<close>: no row is
  removed and the rows 70 to 79 are added.
\<close>

theorem two_phase_update_counterexample:
  "rowsInView_now (scrolled_grid defaultOptions 100 0 20 810 620) = \<lparr> rbegin = 26, rend = 46 \<rparr>
   \<and> viewport (scrolled_grid defaultOptions 100 0 20 810 620) = \<lparr> rbegin = 0, rend = 20 \<rparr>
   \<and> \<not> overlap \<lparr> rbegin = 26, rend = 46 \<rparr> \<lparr> rbegin = 0, rend = 20 \<rparr>
   \<and> map_sum id viewport
       (updateViewportImmediate overlap False (scrolled_grid defaultOptions 100 0 20 810 620))
     = Inr \<lparr> rbegin = 0, rend = 46 \<rparr>
   \<and> rowsInView_now (scrolled_grid defaultOptions 100 20 60 940 1240) = \<lparr> rbegin = 30, rend = 70 \<rparr>
   \<and> map_sum id churn
       (and_then
          (updateViewportImmediate overlap False (scrolled_grid defaultOptions 100 20 60 940 1240))
          (updateViewportImmediate overlap True))
     = Inr (\<lparr> rbegin = 20, rend = 80 \<rparr>, [20..59] @ [60..69] @ [70..79], [])"
  by code_simp

subsection \<open>The invariant after a removal inside the viewport\<close>

text \<open>
  C1. The grid of 100 records with the viewport \<open>{40, 60}\<close>, which is what the
  \<open>renderData\<close> callback followed by \<open>setViewport\<close> produce, satisfies the invariant.
  Removing the rows \<open>[45, 50)\<close>, a range inside the viewport, cuts the records 45 to 49
  out of the working set and then raises a TypeError at \<open>children.slice\<close>, before any row
  node is touched. The scrolling group keeps its twenty nodes: the node with index 45
  still carries the id 45 while the working set now holds record 50 at that index. The
  invariant no longer holds. The \<open>renderData\<close> callback,
  \<open>setViewport\<close> and the mutations behind the viewport keep the invariant of a grid whose
  viewport is loaded: see \<open>renderData_callback_establishes_invariant\<close>,
  \<open>setViewport_keeps_invariant\<close>, \<open>addRows_keeps_invariant\<close> and
  \<open>removeRows_keeps_invariant\<close>.
\<close>

theorem removeRows_inside_viewport_breaks_invariant:
  "grid_invariant (loaded_grid defaultOptions 100 40 60)
   \<and> raised (removeRows 45 50 (loaded_grid defaultOptions 100 40 60)) = Some TypeError
   \<and> (let s = grid_of (removeRows 45 50 (loaded_grid defaultOptions 100 40 60))
      in (grid_invariant s, viewport s, recordCount s,
          map data_row_idx (scrollinggroup s), map data_row_id (scrollinggroup s),
          ws_at (workingSet s) 45, map data_row_idx (removedRows s))
         = (False, \<lparr> rbegin = 40, rend = 60 \<rparr>, 95,
            [40..59], map Some [40..59], Entry (Some (Rec 50)), []))"
  by code_simp

end
